theory Spec2Isabelle
  imports Complex_Main "HOL-Library.Word" "HOL-Library.Log_Nat" "HOL-Library.Multiset"
begin

section \<open>The AMX benchmark driver of \<open>perf_amx.cc\<close>\<close>

text \<open>
  The program times two external kernels (\<open>amx_inner_product\<close>, \<open>amx_matmul\<close>) over two
  sweeps of problem sizes and prints one table row for each call.  The embedding follows
  the source function by function.  What the source takes from outside is a parameter of
  the model: the durations returned by the kernels, the order in which the threads of an
  OpenMP loop reach the shared random engine, the value found in a member that is never
  initialised, and the command-line parser.
\<close>

subsection \<open>Machine integers\<close>

type_synonym u64 = "64 word"
type_synonym i64 = "64 word"  \<comment> \<open>\<open>int64_t\<close>: read with \<open>sint\<close>\<close>

subsection \<open>IEEE-754 binary64 values (\<open>double\<close>)\<close>

text \<open>
  A \<open>double\<close> is modelled by the rational number it denotes, with the negative zero, the
  two infinities and NaN as constructors of their own; \<open>Fin 0\<close> is the positive zero.
  Every operation computes the exact rational result and rounds it to the nearest
  representable value, ties to the even significand (the default rounding mode).
\<close>

datatype double = Fin rat | NegZero | PosInf | NegInf | NaN

text \<open>\<open>flog2 x\<close> is the binary exponent \<open>\<lfloor>log\<^sub>2 x\<rfloor>\<close> of a positive rational.\<close>

definition flog2 :: "rat \<Rightarrow> int" where
  "flog2 x = (let (p, q) = quotient_of x; d = bitlen p - bitlen q
              in if p * 2 ^ nat (bitlen q) < q * 2 ^ nat (bitlen p) then d - 1 else d)"

definition round_half_even :: "rat \<Rightarrow> int" where
  "round_half_even y = (let f = \<lfloor>y\<rfloor>; d = y - of_int f
     in if d < 1 / 2 then f else if 1 / 2 < d then f + 1 else if even f then f else f + 1)"

text \<open>
  The spacing of the binary64 values around \<open>x\<close>: 53 significant bits, and the fixed
  spacing \<open>2\<^sup>-\<^sup>1\<^sup>0\<^sup>7\<^sup>4\<close> of the subnormal range below \<open>2\<^sup>-\<^sup>1\<^sup>0\<^sup>2\<^sup>2\<close>.
\<close>

definition quantum :: "rat \<Rightarrow> rat" where
  "quantum x = 2 powi (max (flog2 \<bar>x\<bar>) (- 1022) - 52)"

definition rnd :: "rat \<Rightarrow> rat" where
  "rnd x = (if x = 0 then 0 else of_int (round_half_even (x / quantum x)) * quantum x)"

definition to_double :: "rat \<Rightarrow> double" where
  "to_double x = (let r = rnd x in
     if 2 ^ 1024 \<le> r then PosInf
     else if r \<le> - (2 ^ 1024) then NegInf
     else if r = 0 \<and> x < 0 then NegZero
     else Fin r)"

fun is_inf :: "double \<Rightarrow> bool" where
  "is_inf PosInf = True"
| "is_inf NegInf = True"
| "is_inf _ = False"

fun is_zero :: "double \<Rightarrow> bool" where
  "is_zero (Fin r) = (r = 0)"
| "is_zero NegZero = True"
| "is_zero _ = False"

fun sign_bit :: "double \<Rightarrow> bool" where
  "sign_bit (Fin r) = (r < 0)"
| "sign_bit NegZero = True"
| "sign_bit NegInf = True"
| "sign_bit _ = False"

fun val :: "double \<Rightarrow> rat" where
  "val (Fin r) = r"
| "val _ = 0"

definition signed_zero :: "bool \<Rightarrow> double" where
  "signed_zero neg = (if neg then NegZero else Fin 0)"

definition signed_inf :: "bool \<Rightarrow> double" where
  "signed_inf neg = (if neg then NegInf else PosInf)"

definition fadd :: "double \<Rightarrow> double \<Rightarrow> double" where
  "fadd x y =
    (if x = NaN \<or> y = NaN then NaN
     else if is_inf x then (if is_inf y \<and> sign_bit x \<noteq> sign_bit y then NaN else x)
     else if is_inf y then y
     else if is_zero x \<and> is_zero y then signed_zero (sign_bit x \<and> sign_bit y)
     else to_double (val x + val y))"

definition fdiv :: "double \<Rightarrow> double \<Rightarrow> double" where
  "fdiv x y =
    (if x = NaN \<or> y = NaN then NaN
     else if is_inf x then (if is_inf y then NaN else signed_inf (sign_bit x \<noteq> sign_bit y))
     else if is_inf y then signed_zero (sign_bit x \<noteq> sign_bit y)
     else if is_zero y then (if is_zero x then NaN else signed_inf (sign_bit x \<noteq> sign_bit y))
     else if is_zero x then signed_zero (sign_bit x \<noteq> sign_bit y)
     else to_double (val x / val y))"

text \<open>The conversions \<open>(double)\<close> of the source, from \<open>uint64_t\<close>, \<open>int64_t\<close> and \<open>int\<close>.\<close>

definition of_u64 :: "u64 \<Rightarrow> double" where
  "of_u64 w = to_double (of_int (uint w))"

definition of_i64 :: "i64 \<Rightarrow> double" where
  "of_i64 w = to_double (of_int (sint w))"

definition of_int32 :: "32 word \<Rightarrow> double" where
  "of_int32 w = to_double (of_int (sint w))"

text \<open>The comparison \<open>d <= 0.0\<close>; it is false on NaN.\<close>

fun le_zero :: "double \<Rightarrow> bool" where
  "le_zero (Fin r) = (r \<le> 0)"
| "le_zero NegZero = True"
| "le_zero NegInf = True"
| "le_zero _ = False"

subsection \<open>The two metrics\<close>

text \<open>
  Modelled from the spec: \<open>dist.hpp\<close>, which declares \<open>bf16\<close>, is not among the sources;
  the spec gives the element two bytes.  \<open>sizeof\<close> has type \<open>size_t\<close>, 64 bits wide.
\<close>

definition sizeof_bf16 :: u64 where
  "sizeof_bf16 = 2"

text \<open>
  \<open>calc_data_size\<close>: both products are formed in \<open>uint64_t\<close> and wrap; each is converted
  to \<open>double\<close>, the two are added, and the sum is divided by \<open>(double)(2 << 19)\<close>.
\<close>

definition calc_data_size :: "u64 \<Rightarrow> u64 \<Rightarrow> u64 \<Rightarrow> double" where
  "calc_data_size N1 N2 M =
     fdiv (fadd (of_u64 (N1 * M * sizeof_bf16)) (of_u64 (N2 * M * sizeof_bf16)))
          (of_int32 (push_bit 19 2))"

text \<open>The local \<open>total_flop\<close> of \<open>run_ip\<close> and \<open>run_gemm\<close>, a \<open>uint64_t\<close>.\<close>

definition total_flop :: "u64 \<Rightarrow> u64 \<Rightarrow> u64 \<Rightarrow> u64" where
  "total_flop N1 N2 M = (N1 * N2) * (2 * M - 1)"

subsection \<open>Random engines and matrix elements\<close>

text \<open>
  \<open>run_ip\<close> draws from a \<open>std::mt19937_64\<close>, \<open>run_gemm\<close> from a \<open>std::mt19937\<close>; both
  are seeded with 47 and read through a \<open>std::uniform_real_distribution<float>\<close>,
  which has no state of its own.  An engine that is only ever used by one call at a time
  is in the state \<open>After k\<close> reached from its seed by \<open>k\<close> draws.  Calls that overlap in
  time can leave it in a state that no sequence of draws reaches; such a state is
  \<open>Torn n\<close>, with \<open>n\<close> a name for it.
\<close>

datatype engine = MT19937 | MT19937_64

datatype engine_state = After nat | Torn nat

record rng =
  kind :: engine
  seed :: nat
  state :: engine_state

text \<open>A draw that no other call disturbs moves the engine to its next state.\<close>

fun next_state :: "engine_state \<Rightarrow> engine_state" where
  "next_state (After k) = After (Suc k)"
| "next_state (Torn n) = Torn (Suc n)"

text \<open>
  A matrix element is identified by what produced it: \<open>Init\<close> is the value-initialised
  element of a fresh \<open>std::vector<bf16>\<close>, and \<open>Variate g\<close> is \<open>(bf16)distrib(rng)\<close>
  computed from the engine state \<open>g\<close>.  The numeric value of a variate belongs to the
  standard library and to the \<open>bf16\<close> conversion of \<open>dist.hpp\<close>; it is not needed
  here, and equal elements of the model are equal bit patterns in the program.
  \<open>drawn_from k s x\<close> says that \<open>x\<close> was produced by an engine of kind \<open>k\<close> seeded with
  \<open>s\<close>.
\<close>

datatype bf16 = Init | Variate rng

fun drawn_from :: "engine \<Rightarrow> nat \<Rightarrow> bf16 \<Rightarrow> bool" where
  "drawn_from k s Init = False"
| "drawn_from k s (Variate g) = (kind g = k \<and> seed g = s)"

subsection \<open>The OpenMP loops\<close>

text \<open>
  \<open>OMP_PARALLEL_FOR\<close> hands the iterations of an outer loop to a team of threads; the
  inner loop of one iteration runs in order, and all threads call \<open>distrib(rng)\<close> on the
  one engine they share, with no synchronisation.  What the runtime decides is given to
  the model as a list of events.  An event \<open>(t, r)\<close> lets the iteration of row \<open>t\<close> perform
  its next draw (an event naming a finished row, or no row, is skipped):
  \<^item> with \<open>r = Clean\<close> no other call overlaps with the draw, which reads the engine as it
    is and moves it to its next state;
  \<^item> with \<open>r = Raced seen left\<close> the draw overlaps with others: the variate is computed
    from the state \<open>seen\<close> and the engine is left in the state \<open>left\<close>, both of them
    arbitrary (a stale state gives a variate twice, a torn one a variate outside the
    stream).
  When the list is used up the remaining bodies run in program order, undisturbed.  The
  empty list is the sequential execution.

  In C++ two overlapping calls on the engine are a data race.  The model follows what
  the compiled loop does, where the race shows in the state of the engine and nowhere
  else: the cells of the vector are distinct objects, each written by one iteration.
  The model does not check that a \<open>Raced\<close> event has another draw to overlap with, so it
  admits more executions than the program has; what holds for every list of events
  holds for every execution.
\<close>

datatype race = Clean | Raced engine_state engine_state

type_synonym cell = "nat \<times> nat"

fun interleave :: "(nat \<times> race) list \<Rightarrow> cell list list \<Rightarrow> (cell \<times> race) list" where
  "interleave [] pend = map (\<lambda>c. (c, Clean)) (concat pend)"
| "interleave ((t, r) # ts) pend =
     (if t < length pend then
        (case pend ! t of
           [] \<Rightarrow> interleave ts pend
         | c # cs \<Rightarrow> (c, r) # interleave ts (pend[t := cs]))
      else interleave ts pend)"

definition omp_parallel_for :: "(nat \<times> race) list \<Rightarrow> nat \<Rightarrow> nat \<Rightarrow> (cell \<times> race) list" where
  "omp_parallel_for sched rows cols =
     interleave sched (map (\<lambda>i. map (\<lambda>j. (i, j)) [0..<cols]) [0..<rows])"

text \<open>
  The loop body \<open>mat[i * stride + j] = (bf16)distrib(rng)\<close>, run for each event in the
  given order.  The index is computed in \<open>uint64_t\<close>.  A store past the end of the
  vector is undefined behaviour in the source and \<open>None\<close> here.
\<close>

fun cell_index :: "u64 \<Rightarrow> cell \<Rightarrow> nat" where
  "cell_index stride (i, j) = unat (of_nat i * stride + of_nat j :: u64)"

fun draw :: "race \<Rightarrow> rng \<Rightarrow> bf16 \<times> rng" where
  "draw Clean g = (Variate g, g\<lparr>state := next_state (state g)\<rparr>)"
| "draw (Raced seen left) g = (Variate (g\<lparr>state := seen\<rparr>), g\<lparr>state := left\<rparr>)"

fun fill_cells ::
  "u64 \<Rightarrow> (cell \<times> race) list \<Rightarrow> bf16 list \<times> rng \<Rightarrow> (bf16 list \<times> rng) option" where
  "fill_cells stride [] s = Some s"
| "fill_cells stride ((c, r) # evs) (buf, g) =
     (let k = cell_index stride c
      in if k < length buf
         then (case draw r g of (v, g') \<Rightarrow> fill_cells stride evs (buf[k := v], g'))
         else None)"

definition fill ::
  "(nat \<times> race) list \<Rightarrow> u64 \<Rightarrow> u64 \<Rightarrow> bf16 list \<times> rng \<Rightarrow> (bf16 list \<times> rng) option" where
  "fill sched rows cols s = fill_cells cols (omp_parallel_for sched (unat rows) (unat cols)) s"

subsection \<open>What the program takes from outside\<close>

record kernel_call =
  arg_N1 :: u64
  arg_N2 :: u64
  arg_M :: u64
  arg_mat_a :: "bf16 list"
  arg_mat_b :: "bf16 list"
  arg_debug :: bool

datatype loop = IP_left | IP_right | GEMM_left | GEMM_right

datatype sweep = Square | Rectangular

text \<open>
  \<^item> \<open>amx_inner_product\<close>, \<open>amx_matmul\<close>: the kernels of \<open>dist.hpp\<close>, which return a
    duration in nanoseconds as an \<open>int64_t\<close>.  The engine and stream handles they also
    receive are opaque and left out.
  \<^item> \<open>omp_schedule\<close>: the events of a parallel loop, as the OpenMP runtime and the
    hardware order them.
  \<^item> \<open>uninit_debug\<close>: the value read from \<open>Benchmark::debug\<close>, which no constructor
    and no assignment ever sets.  It is whatever the stack holds where the object of a
    sweep is built, and that may depend on what ran before, the parsing of the command
    line included: the field takes the command line and the sweep.
  \<^item> \<open>cli_parse\<close>: the CLI11 parser as \<open>main\<close> configures it; \<open>Inl\<close> is the exit code
    with which \<open>CLI11_PARSE\<close> leaves \<open>main\<close>, \<open>Inr\<close> the value stored in the local
    \<open>debug\<close>.
\<close>

record env =
  amx_inner_product :: "kernel_call \<Rightarrow> i64"
  amx_matmul :: "kernel_call \<Rightarrow> i64"
  omp_schedule :: "loop \<Rightarrow> u64 \<Rightarrow> u64 \<Rightarrow> (nat \<times> race) list"
  uninit_debug :: "string list \<Rightarrow> sweep \<Rightarrow> bool"
  cli_parse :: "string list \<Rightarrow> int + bool"

subsection \<open>The results table\<close>

text \<open>
  Modelled from the spec: \<open>VariadicTable.hpp\<close> is not among the sources.  The table keeps
  its rows in the order of the \<open>addRow\<close> calls and \<open>print\<close> renders them in that order;
  a printed table is modelled by the list of its rows.  The four numeric columns have
  type \<open>double\<close>, so \<open>addRow\<close> converts the integers it is given.
\<close>

record row =
  col_mode :: string
  col_dims :: string
  col_data_size :: double
  col_total_flop :: double
  col_duration :: double
  col_gflops :: double

type_synonym table = "row list"

record benchmark =
  pt :: table
  debug :: bool

text \<open>The constructor creates an empty table and leaves \<open>debug\<close> as it finds it.\<close>

definition Benchmark :: "bool \<Rightarrow> benchmark" where
  "Benchmark garbage = \<lparr>pt = [], debug = garbage\<rparr>"

text \<open>\<open>print_results\<close> writes the table to \<open>std::cout\<close> and starts a new one.\<close>

definition print_results :: "benchmark \<Rightarrow> table list \<Rightarrow> benchmark \<times> table list" where
  "print_results b cout = (b\<lparr>pt := []\<rparr>, cout @ [pt b])"

subsection \<open>\<open>std::to_string\<close>\<close>

definition digit :: "nat \<Rightarrow> char" where
  "digit d = ''0123456789'' ! d"

function to_string :: "nat \<Rightarrow> string" where
  "to_string n = (if n < 10 then [digit n] else to_string (n div 10) @ [digit (n mod 10)])"
  by pat_completeness auto
termination
  by (relation "measure id") auto

declare to_string.simps [simp del]

definition dims_string :: "u64 \<Rightarrow> u64 \<Rightarrow> u64 \<Rightarrow> string" where
  "dims_string N1 N2 M =
     to_string (unat N1) @ ''/'' @ to_string (unat N2) @ ''/'' @ to_string (unat M)"

subsection \<open>\<open>Benchmark::run_ip\<close> and \<open>Benchmark::run_gemm\<close>\<close>

text \<open>
  Lines 42 to 61: both operands, the right one filled after the left one has been
  completed.  The two vectors are taken to be allocated: whether the machine has the
  memory for them is outside the model.
\<close>

definition ip_operands :: "env \<Rightarrow> u64 \<Rightarrow> u64 \<Rightarrow> u64 \<Rightarrow> (bf16 list \<times> bf16 list) option" where
  "ip_operands e N1 N2 M =
     (let mat_a = replicate (unat (N1 * M)) Init;
          mat_b = replicate (unat (N2 * M)) Init;
          g = \<lparr>kind = MT19937_64, seed = 47, state = After 0\<rparr>
      in case fill (omp_schedule e IP_left N1 M) N1 M (mat_a, g) of
           None \<Rightarrow> None
         | Some (mat_a', g') \<Rightarrow>
             (case fill (omp_schedule e IP_right N2 M) N2 M (mat_b, g') of
                None \<Rightarrow> None
              | Some (mat_b', g'') \<Rightarrow> Some (mat_a', mat_b')))"

text \<open>Lines 63 to 72: the metrics, the kernel call and the row.\<close>

definition ip_row :: "env \<Rightarrow> bool \<Rightarrow> u64 \<Rightarrow> u64 \<Rightarrow> u64 \<Rightarrow> bf16 list \<Rightarrow> bf16 list \<Rightarrow> row" where
  "ip_row e dbg N1 N2 M mat_a mat_b =
     (let data_size = calc_data_size N1 N2 M;
          tf = total_flop N1 N2 M;
          dims = dims_string N1 N2 M;
          dur = amx_inner_product e
                  \<lparr>arg_N1 = N1, arg_N2 = N2, arg_M = M,
                   arg_mat_a = mat_a, arg_mat_b = mat_b, arg_debug = dbg\<rparr>;
          gflops = fdiv (of_u64 tf) (of_i64 dur)
      in \<lparr>col_mode = ''IP / AMX'', col_dims = dims, col_data_size = data_size,
          col_total_flop = of_u64 tf, col_duration = of_i64 dur, col_gflops = gflops\<rparr>)"

definition run_ip :: "env \<Rightarrow> benchmark \<Rightarrow> u64 \<Rightarrow> u64 \<Rightarrow> u64 \<Rightarrow> benchmark option" where
  "run_ip e b N1 N2 M =
     (case ip_operands e N1 N2 M of
        None \<Rightarrow> None
      | Some (mat_a, mat_b) \<Rightarrow>
          Some (b\<lparr>pt := pt b @ [ip_row e (debug b) N1 N2 M mat_a mat_b]\<rparr>))"

text \<open>Lines 77 to 96: the right operand has \<open>M\<close> rows of \<open>N2\<close> elements.\<close>

definition gemm_operands :: "env \<Rightarrow> u64 \<Rightarrow> u64 \<Rightarrow> u64 \<Rightarrow> (bf16 list \<times> bf16 list) option" where
  "gemm_operands e N1 N2 M =
     (let mat_a = replicate (unat (N1 * M)) Init;
          mat_b = replicate (unat (M * N2)) Init;
          g = \<lparr>kind = MT19937, seed = 47, state = After 0\<rparr>
      in case fill (omp_schedule e GEMM_left N1 M) N1 M (mat_a, g) of
           None \<Rightarrow> None
         | Some (mat_a', g') \<Rightarrow>
             (case fill (omp_schedule e GEMM_right M N2) M N2 (mat_b, g') of
                None \<Rightarrow> None
              | Some (mat_b', g'') \<Rightarrow> Some (mat_a', mat_b')))"

definition gemm_row :: "env \<Rightarrow> bool \<Rightarrow> u64 \<Rightarrow> u64 \<Rightarrow> u64 \<Rightarrow> bf16 list \<Rightarrow> bf16 list \<Rightarrow> row" where
  "gemm_row e dbg N1 N2 M mat_a mat_b =
     (let data_size = calc_data_size N1 N2 M;
          tf = total_flop N1 N2 M;
          dims = dims_string N1 N2 M;
          dur = amx_matmul e
                  \<lparr>arg_N1 = N1, arg_N2 = N2, arg_M = M,
                   arg_mat_a = mat_a, arg_mat_b = mat_b, arg_debug = dbg\<rparr>;
          gflops = fdiv (of_u64 tf) (of_i64 dur)
      in \<lparr>col_mode = ''GEMM / AMX'', col_dims = dims, col_data_size = data_size,
          col_total_flop = of_u64 tf, col_duration = of_i64 dur, col_gflops = gflops\<rparr>)"

definition run_gemm :: "env \<Rightarrow> benchmark \<Rightarrow> u64 \<Rightarrow> u64 \<Rightarrow> u64 \<Rightarrow> benchmark option" where
  "run_gemm e b N1 N2 M =
     (case gemm_operands e N1 N2 M of
        None \<Rightarrow> None
      | Some (mat_a, mat_b) \<Rightarrow>
          Some (b\<lparr>pt := pt b @ [gemm_row e (debug b) N1 N2 M mat_a mat_b]\<rparr>))"

text \<open>
  \<open>ip_row_of e dbg N1 N2 M r\<close>: \<open>r\<close> is the row that \<open>run_ip\<close> appends for the
  configuration \<open>(N1, N2, M)\<close> when the member \<open>debug\<close> reads \<open>dbg\<close>, that is, the row
  computed from the operands the call generates; \<open>gemm_row_of\<close> likewise for \<open>run_gemm\<close>.
\<close>

definition ip_row_of :: "env \<Rightarrow> bool \<Rightarrow> u64 \<Rightarrow> u64 \<Rightarrow> u64 \<Rightarrow> row \<Rightarrow> bool" where
  "ip_row_of e dbg N1 N2 M r \<longleftrightarrow>
     (\<exists>mat_a mat_b. ip_operands e N1 N2 M = Some (mat_a, mat_b)
        \<and> r = ip_row e dbg N1 N2 M mat_a mat_b)"

definition gemm_row_of :: "env \<Rightarrow> bool \<Rightarrow> u64 \<Rightarrow> u64 \<Rightarrow> u64 \<Rightarrow> row \<Rightarrow> bool" where
  "gemm_row_of e dbg N1 N2 M r \<longleftrightarrow>
     (\<exists>mat_a mat_b. gemm_operands e N1 N2 M = Some (mat_a, mat_b)
        \<and> r = gemm_row e dbg N1 N2 M mat_a mat_b)"

subsection \<open>The sweeps and \<open>main\<close>\<close>

text \<open>\<open>std::for_each\<close> over a vector, with a body that changes the benchmark object.\<close>

fun for_each :: "'a list \<Rightarrow> ('a \<Rightarrow> benchmark \<Rightarrow> benchmark option) \<Rightarrow> benchmark \<Rightarrow> benchmark option" where
  "for_each [] f b = Some b"
| "for_each (x # xs) f b = (case f x b of None \<Rightarrow> None | Some b' \<Rightarrow> for_each xs f b')"

text \<open>
  Both sweeps take what \<open>std::cout\<close> holds so far and return what it holds after.
  \<open>garbage\<close> is the value that the member \<open>debug\<close> of the local \<open>bench\<close> happens to hold.
\<close>

definition run_bench_sq_matrix :: "env \<Rightarrow> bool \<Rightarrow> table list \<Rightarrow> table list option" where
  "run_bench_sq_matrix e garbage cout =
     (let bench = Benchmark garbage;
          sizes = [64, 128, 256, 512, 1024, 2048, 4096, 8192, 16384, 32768]
      in case for_each sizes (\<lambda>size b. run_ip e b size size size) bench of
           None \<Rightarrow> None
         | Some bench1 \<Rightarrow>
             (let (bench2, cout1) = print_results bench1 cout
              in case for_each sizes (\<lambda>size b. run_gemm e b size size size) bench2 of
                   None \<Rightarrow> None
                 | Some bench3 \<Rightarrow>
                     (let (bench4, cout2) = print_results bench3 cout1 in Some cout2)))"

definition run_bench_rect_matrix :: "env \<Rightarrow> bool \<Rightarrow> table list \<Rightarrow> table list option" where
  "run_bench_rect_matrix e garbage cout =
     (let bench = Benchmark garbage;
          n2_base = 1024 * 1024;
          m = 1024;
          n1s = [32, 64, 128, 256, 512, 1024, 2048, 4096, 8192, 16384, 32768];
          n2_multipliers = [1, 2, 4, 8]
      in case for_each n1s (\<lambda>n1. for_each n2_multipliers
                (\<lambda>n2_multiplier b. let n2 = n2_base * n2_multiplier in run_ip e b n1 n2 m))
              bench of
           None \<Rightarrow> None
         | Some bench1 \<Rightarrow> (let (bench2, cout1) = print_results bench1 cout in Some cout1))"

text \<open>
  \<open>main\<close> returns the exit status and the tables printed.  The value parsed into the
  local \<open>debug\<close> (here \<open>debug'\<close>) is used by nothing after \<open>CLI11_PARSE\<close>; the two sweeps
  build their own \<open>Benchmark\<close> objects, whose member \<open>debug\<close> is never assigned.
\<close>

definition main :: "env \<Rightarrow> string list \<Rightarrow> (int \<times> table list) option" where
  "main e argv =
     (case cli_parse e argv of
        Inl code \<Rightarrow> Some (code, [])
      | Inr debug' \<Rightarrow>
          (case run_bench_sq_matrix e (uninit_debug e argv Square) [] of
             None \<Rightarrow> None
           | Some cout1 \<Rightarrow>
               (case run_bench_rect_matrix e (uninit_debug e argv Rectangular) cout1 of
                  None \<Rightarrow> None
                | Some cout2 \<Rightarrow> Some (0, cout2))))"

subsection \<open>The formulas of the specification\<close>

text \<open>
  The two metrics as the specification writes them, over the unbounded integers and the
  rationals: \<open>N1 * N2 * (2M - 1)\<close> operations and \<open>(N1 * M + N2 * M) * 2 / 2\<^sup>2\<^sup>0\<close> MiB.
\<close>

definition flop_formula :: "nat \<Rightarrow> nat \<Rightarrow> nat \<Rightarrow> int" where
  "flop_formula n1 n2 m = int n1 * int n2 * (2 * int m - 1)"

definition data_size_formula :: "nat \<Rightarrow> nat \<Rightarrow> nat \<Rightarrow> rat" where
  "data_size_formula n1 n2 m = of_nat ((n1 * m + n2 * m) * 2) / 2 ^ 20"

subsection \<open>An environment for concrete runs\<close>

text \<open>
  Both kernels report the given duration, every loop runs sequentially, the member
  \<open>debug\<close> happens to read as false in every run, and the parser accepts an empty command
  line and \<open>--debug true\<close> or \<open>-d true\<close>.
\<close>

definition example_cli :: "string list \<Rightarrow> int + bool" where
  "example_cli argv =
     (if argv = [] then Inr False
      else if argv = [''--debug'', ''true''] \<or> argv = [''-d'', ''true''] then Inr True
      else Inl 1)"

definition example_env :: "i64 \<Rightarrow> env" where
  "example_env dur =
     \<lparr>amx_inner_product = (\<lambda>c. dur), amx_matmul = (\<lambda>c. dur),
      omp_schedule = (\<lambda>l rows cols. []), uninit_debug = (\<lambda>argv s. False),
      cli_parse = example_cli\<rparr>"

section \<open>Properties of the rounding\<close>

lemma bitlen_pos: "0 < p \<Longrightarrow> 1 \<le> bitlen p"
  using bitlen_nonneg[of p] bitlen_eq_zero_iff[of p] by simp

lemma flog2_le:
  assumes "0 < x"
  shows "2 powi (flog2 x) \<le> x"
proof -
  obtain p q where pq: "quotient_of x = (p, q)" by (cases "quotient_of x")
  have q: "0 < q" using pq quotient_of_denom_pos by blast
  have x: "x = of_int p / of_int q" using pq quotient_of_div by blast
  have p: "0 < p" using assms q x by (simp add: zero_less_divide_iff)
  define a where "a = bitlen p"
  define b where "b = bitlen q"
  have a: "2 ^ nat (a - 1) \<le> p" using bitlen_bounds[OF p] by (simp add: a_def)
  have b: "q < 2 ^ nat b" using bitlen_bounds[OF q] by (simp add: b_def)
  have a1: "1 \<le> a" using p by (simp add: a_def bitlen_pos)
  have b1: "1 \<le> b" using q by (simp add: b_def bitlen_pos)
  show ?thesis
  proof (cases "p * 2 ^ nat b < q * 2 ^ nat a")
    case True
    then have f: "flog2 x = a - b - 1" by (simp add: flog2_def pq a_def b_def)
    have "a - b - 1 = (a - 1) - b" by simp
    then have "(2::rat) powi (a - b - 1) = 2 powi ((a - 1) - b)" by (simp only:)
    also have "\<dots> = 2 powi (a - 1) / 2 powi b" by (rule power_int_diff) simp
    also have "\<dots> = 2 ^ nat (a - 1) / 2 ^ nat b" using a1 b1 by (simp add: power_int_def)
    also have "\<dots> \<le> of_int p / of_int q"
    proof (rule frac_le)
      show "(2::rat) ^ nat (a - 1) \<le> of_int p"
        using a by (metis of_int_le_iff of_int_numeral of_int_power)
      show "rat_of_int q \<le> 2 ^ nat b"
        using b by (metis less_imp_le of_int_le_iff of_int_numeral of_int_power)
    qed (use p q in simp_all)
    finally show ?thesis using f x by simp
  next
    case False
    then have f: "flog2 x = a - b" by (simp add: flog2_def pq a_def b_def)
    have "(2::rat) powi (a - b) = 2 ^ nat a / 2 ^ nat b"
      using a1 b1 by (simp add: power_int_diff power_int_nonneg_exp)
    also have "\<dots> \<le> of_int p / of_int q"
    proof -
      from False have "q * 2 ^ nat a \<le> p * 2 ^ nat b" by simp
      then have "rat_of_int (q * 2 ^ nat a) \<le> rat_of_int (p * 2 ^ nat b)"
        by (simp only: of_int_le_iff)
      then have "rat_of_int q * 2 ^ nat a \<le> rat_of_int p * 2 ^ nat b" by simp
      then show ?thesis using q by (simp add: field_simps)
    qed
    finally show ?thesis using f x by simp
  qed
qed


lemma round_half_even_of_int [simp]: "round_half_even (of_int n) = n"
  by (simp add: round_half_even_def)

lemma quantum_pos: "0 < quantum x"
  by (simp add: quantum_def)

lemma rnd_exact:
  assumes x: "x = of_int m * 2 powi t" and m: "\<bar>m\<bar> < 2 ^ 53" and t: "- 1074 \<le> t"
  shows "rnd x = x"
proof (cases "x = 0")
  case True
  then show ?thesis by (simp add: rnd_def)
next
  case False
  define e where "e = flog2 \<bar>x\<bar>"
  have "2 powi e \<le> \<bar>x\<bar>" unfolding e_def using False by (intro flog2_le) simp
  also have "\<bar>x\<bar> = of_int \<bar>m\<bar> * 2 powi t" by (simp add: x abs_mult)
  also have "\<dots> < 2 ^ 53 * 2 powi t"
  proof -
    have "rat_of_int \<bar>m\<bar> < rat_of_int (2 ^ 53)" using m by (simp only: of_int_less_iff)
    then show ?thesis by simp
  qed
  also have "\<dots> = 2 powi (53 + t)" by (simp add: power_int_add)
  finally have lt: "2 powi e < (2::rat) powi (53 + t)" .
  have "e < 53 + t"
  proof (rule ccontr)
    assume "\<not> e < 53 + t"
    then have "(2::rat) powi (53 + t) \<le> 2 powi e" by (intro power_int_increasing) simp_all
    with lt show False by simp
  qed
  define k where "k = t - (max e (- 1022) - 52)"
  have k: "0 \<le> k" using \<open>e < 53 + t\<close> t by (simp add: k_def)
  have q: "quantum x = 2 powi (t - k)" by (simp add: quantum_def e_def k_def)
  have "x / quantum x = x / 2 powi (t - k)" by (simp only: q)
  also have "\<dots> = of_int m * (2 powi t / 2 powi (t - k))" by (simp add: x)
  also have "2 powi t / 2 powi (t - k) = (2::rat) powi k"
    by (simp add: power_int_diff)
  also have "\<dots> = of_int (2 ^ nat k)" using k by (simp add: power_int_def)
  finally have xq: "x / quantum x = of_int (m * 2 ^ nat k)" by simp
  then have "rnd x = of_int (m * 2 ^ nat k) * quantum x"
    using False by (simp add: rnd_def del: of_int_mult of_int_power)
  also have "\<dots> = x / quantum x * quantum x" using xq by simp
  also have "\<dots> = x" using quantum_pos[of x] by simp
  finally show ?thesis .
qed

lemma round_half_even_bounds: "\<lfloor>y\<rfloor> \<le> round_half_even y" "round_half_even y \<le> \<lfloor>y\<rfloor> + 1"
  by (simp_all add: round_half_even_def Let_def)

lemma round_half_even_nonneg: "0 \<le> y \<Longrightarrow> 0 \<le> round_half_even y"
  using round_half_even_bounds(1)[of y] by (simp add: order_trans[of 0 "\<lfloor>y\<rfloor>"])

lemma round_half_even_nonpos: "y \<le> 0 \<Longrightarrow> round_half_even y \<le> 0"
  by (metis ceiling_altdef ceiling_le_zero dual_order.trans
    round_half_even_bounds(2) round_half_even_of_int)

lemma rnd_nonneg: "0 \<le> x \<Longrightarrow> 0 \<le> rnd x"
  using quantum_pos[of x] by (simp add: rnd_def round_half_even_nonneg)

lemma rnd_nonpos: "x \<le> 0 \<Longrightarrow> rnd x \<le> 0"
  using quantum_pos[of x] by (simp add: rnd_def round_half_even_nonpos mult_le_0_iff divide_le_0_iff)


lemma quantum_le:
  assumes "x \<noteq> 0"
  shows "quantum x \<le> max (\<bar>x\<bar> / 2 ^ 52) (1 / 2 ^ 1074)"
proof (cases "- 1022 \<le> flog2 \<bar>x\<bar>")
  case True
  then have "quantum x = 2 powi (flog2 \<bar>x\<bar> - 52)" by (simp add: quantum_def max_def)
  also have "\<dots> = 2 powi (flog2 \<bar>x\<bar>) / 2 ^ 52" by (simp add: power_int_diff)
  also have "\<dots> \<le> \<bar>x\<bar> / 2 ^ 52"
    using flog2_le[of "\<bar>x\<bar>"] assms by (simp add: divide_right_mono)
  finally show ?thesis by simp
next
  case False
  then have "quantum x = 2 powi (- 1074)" by (simp add: quantum_def max_def)
  also have "\<dots> = 1 / 2 ^ 1074" by (simp add: power_int_def field_simps)
  finally show ?thesis by simp
qed

lemma rnd_neg:
  assumes "x \<le> - 1"
  shows "rnd x < 0"
proof -
  have x0: "x \<noteq> 0" using assms by auto
  have q: "0 < quantum x" by (rule quantum_pos)
  have "quantum x \<le> max (\<bar>x\<bar> / 2 ^ 52) (1 / 2 ^ 1074)" by (rule quantum_le[OF x0])
  also have "\<dots> \<le> \<bar>x\<bar> / 2"
  proof (rule max.boundedI)
    show "\<bar>x\<bar> / 2 ^ 52 \<le> \<bar>x\<bar> / 2" by (intro divide_left_mono) simp_all
    have "(1::rat) / 2 ^ 1074 \<le> 1 / 2" by (intro divide_left_mono) simp_all
    also have "\<dots> \<le> \<bar>x\<bar> / 2" using assms by simp
    finally show "1 / 2 ^ 1074 \<le> \<bar>x\<bar> / 2" .
  qed
  finally have "2 * quantum x \<le> - x" using assms by simp
  then have "x / quantum x \<le> - 2" using q by (simp add: field_simps)
  then have "\<lfloor>x / quantum x\<rfloor> \<le> - 2" by (simp add: floor_le_iff)
  then have "round_half_even (x / quantum x) < 0"
    using round_half_even_bounds(2)[of "x / quantum x"] by linarith
  then show ?thesis using q x0 by (simp add: rnd_def mult_less_0_iff)
qed

lemma rnd_abs_le:
  "\<bar>rnd x\<bar> \<le> 2 * \<bar>x\<bar> + 1"
proof (cases "x = 0")
  case True
  then show ?thesis by (simp add: rnd_def)
next
  case False
  define y where "y = x / quantum x"
  have q: "0 < quantum x" by (rule quantum_pos)
  have "\<bar>rat_of_int (round_half_even y)\<bar> \<le> \<bar>y\<bar> + 1"
    using round_half_even_bounds[of y] by (simp add: abs_le_iff) linarith
  then have "\<bar>rat_of_int (round_half_even y)\<bar> * quantum x \<le> (\<bar>y\<bar> + 1) * quantum x"
    using q by (simp add: mult_right_mono)
  also have "\<dots> = \<bar>x\<bar> + quantum x" using q by (simp add: y_def field_simps abs_mult)
  also have "quantum x \<le> max (\<bar>x\<bar> / 2 ^ 52) (1 / 2 ^ 1074)" by (rule quantum_le[OF False])
  also have "\<dots> \<le> \<bar>x\<bar> + 1"
  proof (rule max.boundedI)
    have "\<bar>x\<bar> / 2 ^ 52 \<le> \<bar>x\<bar> / 1" by (intro divide_left_mono) simp_all
    then show "\<bar>x\<bar> / 2 ^ 52 \<le> \<bar>x\<bar> + 1" by simp
    have "(1::rat) / 2 ^ 1074 \<le> 1 / 1" by (intro divide_left_mono) simp_all
    then show "1 / 2 ^ 1074 \<le> \<bar>x\<bar> + 1" by simp
  qed
  finally have "\<bar>rat_of_int (round_half_even y)\<bar> * quantum x \<le> 2 * \<bar>x\<bar> + 1" by simp
  moreover have "\<bar>rnd x\<bar> = \<bar>rat_of_int (round_half_even y)\<bar> * quantum x"
    using False q by (simp add: rnd_def y_def abs_mult)
  ultimately show ?thesis by simp
qed

lemma to_double_exact:
  assumes "x = of_int m * 2 powi t" and "\<bar>m\<bar> < 2 ^ 53" and "- 1074 \<le> t" and "\<bar>x\<bar> < 2 ^ 1024"
  shows "to_double x = Fin x"
proof -
  have "rnd x = x" by (rule rnd_exact[OF assms(1-3)])
  then show ?thesis using assms(4) by (auto simp: to_double_def Let_def)
qed

lemma to_double_int:
  assumes "\<bar>n\<bar> \<le> 2 ^ 53 \<or> even n \<and> \<bar>n\<bar> < 2 ^ 54"
  shows "to_double (of_int n) = Fin (of_int n)"
proof (cases "\<bar>n\<bar> < 2 ^ 53")
  case True
  show ?thesis
  proof (rule to_double_exact[where m = n and t = 0])
    have "rat_of_int \<bar>n\<bar> < rat_of_int (2 ^ 53)" using True by (simp only: of_int_less_iff)
    also have "\<dots> < 2 ^ 1024" by simp
    finally show "\<bar>rat_of_int n\<bar> < 2 ^ 1024" by simp
  qed (use True in simp_all)
next
  case False
  with assms have disj: "\<bar>n\<bar> = 2 ^ 53 \<or> even n \<and> \<bar>n\<bar> < 2 ^ 54" by auto
  then have le: "\<bar>n\<bar> < 2 ^ 54" by auto
  from disj have ev: "even n"
  proof
    assume a: "\<bar>n\<bar> = 2 ^ 53"
    have "(2::int) dvd 2 ^ 53" by simp
    then have "2 dvd \<bar>n\<bar>" by (simp only: a)
    then show "even n" by simp
  qed simp
  obtain h where h: "n = 2 * h" using ev by (auto elim: evenE)
  show ?thesis
  proof (rule to_double_exact[where m = h and t = 1])
    show "rat_of_int n = rat_of_int h * 2 powi 1" by (simp add: h)
    show "\<bar>h\<bar> < 2 ^ 53" using le by (simp add: h abs_mult)
    have "rat_of_int \<bar>n\<bar> < rat_of_int (2 ^ 54)" using le by (simp only: of_int_less_iff)
    also have "\<dots> < 2 ^ 1024" by simp
    finally show "\<bar>rat_of_int n\<bar> < 2 ^ 1024" by simp
  qed simp_all
qed

lemma of_u64_exact:
  "uint w \<le> 2 ^ 53 \<or> even (uint w) \<and> uint w < 2 ^ 54 \<Longrightarrow> of_u64 w = Fin (of_int (uint w))"
  unfolding of_u64_def by (rule to_double_int) simp

lemma flog2_gt:
  assumes "0 < x"
  shows "x < 2 powi (flog2 x + 1)"
proof -
  obtain p q where pq: "quotient_of x = (p, q)" by (cases "quotient_of x")
  have q: "0 < q" using pq quotient_of_denom_pos by blast
  have x: "x = of_int p / of_int q" using pq quotient_of_div by blast
  have p: "0 < p" using assms q x by (simp add: zero_less_divide_iff)
  define a where "a = bitlen p"
  define b where "b = bitlen q"
  have a: "p < 2 ^ nat a" using bitlen_bounds[OF p] by (simp add: a_def)
  have b: "2 ^ nat (b - 1) \<le> q" using bitlen_bounds[OF q] by (simp add: b_def)
  have a1: "1 \<le> a" using p by (simp add: a_def bitlen_pos)
  have b1: "1 \<le> b" using q by (simp add: b_def bitlen_pos)
  show ?thesis
  proof (cases "p * 2 ^ nat b < q * 2 ^ nat a")
    case True
    then have f: "flog2 x = a - b - 1" by (simp add: flog2_def pq a_def b_def)
    from True have "rat_of_int (p * 2 ^ nat b) < rat_of_int (q * 2 ^ nat a)"
      by (simp only: of_int_less_iff)
    then have "rat_of_int p * 2 ^ nat b < rat_of_int q * 2 ^ nat a" by simp
    then have "of_int p / of_int q < (2::rat) ^ nat a / 2 ^ nat b"
      using q by (simp add: field_simps)
    also have "\<dots> = 2 powi (a - b)" using a1 b1 by (simp add: power_int_diff power_int_nonneg_exp)
    finally show ?thesis using f x by simp
  next
    case False
    then have f: "flog2 x = a - b" by (simp add: flog2_def pq a_def b_def)
    have "of_int p / of_int q < (2::rat) ^ nat a / 2 ^ nat (b - 1)"
    proof (rule frac_less)
      show "rat_of_int p < 2 ^ nat a"
        using a by (metis of_int_less_iff of_int_numeral of_int_power)
      show "(2::rat) ^ nat (b - 1) \<le> rat_of_int q"
        using b by (metis of_int_le_iff of_int_numeral of_int_power)
    qed (use p in simp_all)
    also have "\<dots> = 2 powi a / 2 powi (b - 1)" using a1 b1 by (simp add: power_int_def)
    also have "\<dots> = 2 powi (a - (b - 1))" by (rule power_int_diff[symmetric]) simp
    also have "a - (b - 1) = a - b + 1" by simp
    finally show ?thesis using f x by simp
  qed
qed

lemma flog2_eq:
  assumes "2 powi e \<le> x" and "x < 2 powi (e + 1)"
  shows "flog2 x = e"
proof -
  have x: "0 < x" using assms(1) by (simp add: less_le_trans[of 0 "2 powi e"])
  have "(2::rat) powi (flog2 x) < 2 powi (e + 1)"
    using flog2_le[OF x] assms(2) by simp
  then have 1: "flog2 x < e + 1"
    by (metis linorder_not_less power_int_increasing one_le_numeral)
  have "(2::rat) powi e < 2 powi (flog2 x + 1)"
    using flog2_gt[OF x] assms(1) by simp
  then have 2: "e < flog2 x + 1"
    by (metis linorder_not_less power_int_increasing one_le_numeral)
  show ?thesis using 1 2 by simp
qed

lemma to_double_eval:
  assumes "2 powi e \<le> \<bar>x\<bar>" and "\<bar>x\<bar> < 2 powi (e + 1)" and "- 1022 \<le> e" and "e \<le> 1000"
    and "r = of_int (round_half_even (x / 2 powi (e - 52))) * 2 powi (e - 52)"
  shows "to_double x = (if r = 0 \<and> x < 0 then NegZero else Fin r)"
proof -
  have "0 < \<bar>x\<bar>" by (rule less_le_trans[OF _ assms(1)]) simp
  then have x0: "x \<noteq> 0" by simp
  have fl: "flog2 \<bar>x\<bar> = e" by (rule flog2_eq[OF assms(1,2)])
  have q: "quantum x = 2 powi (e - 52)" using assms(3) by (simp add: quantum_def fl)
  have r: "rnd x = r"
    using x0 by (simp add: rnd_def q assms(5))
  have "\<bar>rnd x\<bar> \<le> 2 * \<bar>x\<bar> + 1" by (rule rnd_abs_le)
  also have "\<dots> < 2 * 2 powi (e + 1) + 1" using assms(2) by simp
  also have "\<dots> \<le> 2 * 2 powi 1001 + 1"
    using assms(4) power_int_increasing[of "e + 1" 1001 "2::rat"] by simp
  also have "\<dots> < 2 ^ 1024" by (simp add: power_int_def)
  finally have b: "\<bar>rnd x\<bar> < 2 ^ 1024" .
  show ?thesis using b by (auto simp: to_double_def Let_def r)
qed

lemma floor_rat_numeral:
  "\<lfloor>(numeral a :: rat) / numeral b\<rfloor> = numeral a div numeral b"
  "\<lfloor>- (numeral a :: rat) / numeral b\<rfloor> = - numeral a div numeral b"
  by (metis floor_divide_of_int_eq of_int_numeral)
     (metis floor_divide_of_int_eq of_int_neg_numeral of_int_numeral)

lemmas round_evals = round_half_even_def power_int_def Let_def floor_rat_numeral

section \<open>Exact operations\<close>

lemma of_int32_shift: "of_int32 (push_bit 19 2) = Fin 1048576"
proof -
  have "sint (push_bit 19 (2 :: 32 word)) = 1048576" by simp
  then have "of_int32 (push_bit 19 2) = to_double (of_int 1048576)" by (simp only: of_int32_def)
  also have "\<dots> = Fin (of_int 1048576)" by (rule to_double_int) simp
  finally show ?thesis by simp
qed

lemma fadd_exact:
  assumes "0 \<le> a" "0 \<le> b" and "a + b \<le> 2 ^ 53 \<or> even (a + b) \<and> a + b < 2 ^ 54"
  shows "fadd (Fin (of_int a)) (Fin (of_int b)) = Fin (of_int (a + b))"
proof (cases "a = 0 \<and> b = 0")
  case True
  then show ?thesis by (simp add: fadd_def signed_zero_def)
next
  case False
  then have "fadd (Fin (of_int a)) (Fin (of_int b)) = to_double (of_int (a + b))"
    by (auto simp: fadd_def)
  also have "\<dots> = Fin (of_int (a + b))" using assms by (intro to_double_int) simp
  finally show ?thesis .
qed

lemma fdiv_pow2_exact:
  assumes "0 \<le> s" "even s" "s < 2 ^ 54"
  shows "fdiv (Fin (of_int s)) (Fin 1048576) = Fin (of_int s / 2 ^ 20)"
proof (cases "s = 0")
  case True
  then show ?thesis by (simp add: fdiv_def signed_zero_def)
next
  case False
  obtain h where h: "s = 2 * h" using assms(2) by (auto elim: evenE)
  have "fdiv (Fin (of_int s)) (Fin 1048576) = to_double (of_int s / 1048576)"
    using False by (simp add: fdiv_def)
  also have "\<dots> = Fin (of_int s / 1048576)"
  proof (rule to_double_exact[where m = h and t = "- 19"])
    show "rat_of_int s / 1048576 = rat_of_int h * 2 powi - 19"
      by (simp add: h power_int_def field_simps)
    show "\<bar>h\<bar> < 2 ^ 53" using assms h by simp
    have "\<bar>rat_of_int s / 1048576\<bar> \<le> \<bar>rat_of_int s\<bar>" by (simp add: field_simps)
    also have "\<dots> = rat_of_int s" using assms(1) by simp
    also have "\<dots> < rat_of_int (2 ^ 54)" using assms(3) by (simp only: of_int_less_iff)
    also have "\<dots> < 2 ^ 1024" by simp
    finally show "\<bar>rat_of_int s / 1048576\<bar> < 2 ^ 1024" .
  qed simp
  finally show ?thesis by simp
qed

lemma uint_bytes:
  assumes "uint N * uint M < 2 ^ 63"
  shows "uint (N * M * sizeof_bf16) = 2 * (uint N * uint M)"
proof -
  define k where "k = uint N * uint M"
  have k0: "0 \<le> k" by (simp add: k_def)
  have k63: "k < 2 ^ 63" using assms by (simp add: k_def)
  have "uint (N * M * sizeof_bf16) = (uint (N * M) * 2) mod 2 ^ 64"
    unfolding sizeof_bf16_def by (simp only: uint_word_ariths) simp
  also have "uint (N * M) = k mod 2 ^ 64" unfolding k_def by (simp only: uint_word_ariths) simp
  also have "k mod 2 ^ 64 = k" using k0 k63 by simp
  also have "(k * 2) mod 2 ^ 64 = k * 2" using k0 k63 by simp
  finally show ?thesis by (simp add: k_def)
qed

lemma calc_data_size_exact:
  assumes "unat N1 * unat M + unat N2 * unat M < 2 ^ 53"
  shows "calc_data_size N1 N2 M = Fin (data_size_formula (unat N1) (unat N2) (unat M))"
proof -
  define a where "a = uint N1 * uint M"
  define b where "b = uint N2 * uint M"
  have a0: "0 \<le> a" and b0: "0 \<le> b" by (simp_all add: a_def b_def)
  have "int (unat N1 * unat M + unat N2 * unat M) < int (2 ^ 53)"
    using assms by (simp only: of_nat_less_iff)
  then have ab: "a + b < 2 ^ 53" by (simp add: a_def b_def)
  have ua: "uint (N1 * M * sizeof_bf16) = 2 * a"
    unfolding a_def using a0 b0 ab by (intro uint_bytes) (simp add: a_def)
  have ub: "uint (N2 * M * sizeof_bf16) = 2 * b"
    unfolding b_def using a0 b0 ab by (intro uint_bytes) (simp add: b_def)
  have ca: "of_u64 (N1 * M * sizeof_bf16) = Fin (of_int (2 * a))"
    using of_u64_exact[of "N1 * M * sizeof_bf16"] a0 b0 ab by (simp only: ua) simp
  have cb: "of_u64 (N2 * M * sizeof_bf16) = Fin (of_int (2 * b))"
    using of_u64_exact[of "N2 * M * sizeof_bf16"] a0 b0 ab by (simp only: ub) simp
  have "calc_data_size N1 N2 M = fdiv (fadd (Fin (of_int (2 * a))) (Fin (of_int (2 * b)))) (Fin 1048576)"
    by (simp only: calc_data_size_def ca cb of_int32_shift)
  also have "fadd (Fin (of_int (2 * a))) (Fin (of_int (2 * b))) = Fin (of_int (2 * a + 2 * b))"
    using a0 b0 ab by (intro fadd_exact) simp_all
  also have "fdiv (Fin (of_int (2 * a + 2 * b))) (Fin 1048576) = Fin (of_int (2 * a + 2 * b) / 2 ^ 20)"
    using a0 b0 ab by (intro fdiv_pow2_exact) simp_all
  also have "of_int (2 * a + 2 * b) / 2 ^ 20 = data_size_formula (unat N1) (unat N2) (unat M)"
    by (simp add: data_size_formula_def a_def b_def)
  finally show ?thesis .
qed

lemma rnd_pos:
  assumes "1 \<le> x"
  shows "0 < rnd x"
proof -
  have x0: "x \<noteq> 0" using assms by auto
  have q: "0 < quantum x" by (rule quantum_pos)
  have "quantum x \<le> max (\<bar>x\<bar> / 2 ^ 52) (1 / 2 ^ 1074)" by (rule quantum_le[OF x0])
  also have "\<dots> \<le> \<bar>x\<bar>"
  proof (rule max.boundedI)
    have "\<bar>x\<bar> / 2 ^ 52 \<le> \<bar>x\<bar> / 1" by (intro divide_left_mono) simp_all
    then show "\<bar>x\<bar> / 2 ^ 52 \<le> \<bar>x\<bar>" by simp
    have "(1::rat) / 2 ^ 1074 \<le> 1 / 1" by (intro divide_left_mono) simp_all
    also have "\<dots> \<le> \<bar>x\<bar>" using assms by simp
    finally show "1 / 2 ^ 1074 \<le> \<bar>x\<bar>" .
  qed
  finally have "quantum x \<le> x" using assms by simp
  then have "1 \<le> x / quantum x" using q by (simp add: field_simps)
  then have "1 \<le> \<lfloor>x / quantum x\<rfloor>" by (simp add: le_floor_iff)
  then have "0 < round_half_even (x / quantum x)"
    using round_half_even_bounds(1)[of "x / quantum x"] by linarith
  then show ?thesis using q x0 by (simp add: rnd_def)
qed

lemma to_double_fin:
  assumes "\<bar>x\<bar> \<le> 2 ^ 64"
  shows "\<bar>rnd x\<bar> < 2 ^ 1024"
proof -
  have "\<bar>rnd x\<bar> \<le> 2 * \<bar>x\<bar> + 1" by (rule rnd_abs_le)
  also have "\<dots> \<le> 2 * 2 ^ 64 + 1" using assms by simp
  also have "\<dots> < 2 ^ 1024" by simp
  finally show ?thesis .
qed

lemma of_u64_fin: "\<exists>r. of_u64 w = Fin r \<and> 0 \<le> r \<and> (r = 0 \<longleftrightarrow> w = 0)"
proof -
  define x where "x = rat_of_int (uint w)"
  have "rat_of_int 0 \<le> rat_of_int (uint w)" by (simp only: of_int_le_iff) simp
  then have x0: "0 \<le> x" by (simp add: x_def)
  have "uint w < 2 ^ 64" using uint_lt2p[of w] by simp
  then have "rat_of_int (uint w) < rat_of_int (2 ^ 64)" by (simp only: of_int_less_iff)
  then have "\<bar>x\<bar> \<le> 2 ^ 64" using x0 by (simp add: x_def)
  then have b: "\<bar>rnd x\<bar> < 2 ^ 1024" by (rule to_double_fin)
  have r0: "0 \<le> rnd x" using x0 by (rule rnd_nonneg)
  have d: "of_u64 w = Fin (rnd x)" using b r0 x0 by (auto simp: of_u64_def to_double_def x_def Let_def)
  have z: "rnd x = 0 \<longleftrightarrow> w = 0"
  proof (cases "w = 0")
    case True
    then show ?thesis by (simp add: x_def rnd_def)
  next
    case False
    then have "1 \<le> uint w" by (simp add: word_neq_0_conv word_less_def) 
    then have "rat_of_int 1 \<le> rat_of_int (uint w)" by (simp only: of_int_le_iff)
    then have "0 < rnd x" by (intro rnd_pos) (simp add: x_def)
    then show ?thesis using False by simp
  qed
  show ?thesis using d r0 z by blast
qed

lemma of_i64_0 [simp]: "of_i64 0 = Fin 0"
  by (simp add: of_i64_def to_double_def rnd_def)

lemma of_i64_neg:
  assumes "sint d < 0"
  shows "\<exists>r. of_i64 d = Fin r \<and> r < 0"
proof -
  define x where "x = rat_of_int (sint d)"
  have "sint d \<le> - 1" using assms by simp
  then have "rat_of_int (sint d) \<le> rat_of_int (- 1)" by (simp only: of_int_le_iff)
  then have x1: "x \<le> - 1" by (simp add: x_def)
  have "- (2 ^ 63) \<le> sint d" using sint_ge[of d] by simp
  then have "rat_of_int (- (2 ^ 63)) \<le> rat_of_int (sint d)" by (simp only: of_int_le_iff)
  then have "\<bar>x\<bar> \<le> 2 ^ 64" using x1 by (simp add: x_def)
  then have b: "\<bar>rnd x\<bar> < 2 ^ 1024" by (rule to_double_fin)
  have n: "rnd x < 0" using x1 by (rule rnd_neg)
  have "of_i64 d = Fin (rnd x)" using b n by (auto simp: of_i64_def to_double_def x_def Let_def)
  then show ?thesis using n by blast
qed

lemma le_zero_to_double: "x \<le> 0 \<Longrightarrow> le_zero (to_double x)"
  using rnd_nonpos[of x] by (auto simp: to_double_def Let_def)

lemma fdiv_0_0 [simp]: "fdiv (Fin 0) (Fin 0) = NaN"
  by (simp add: fdiv_def)

lemma fdiv_zero_duration:
  "fdiv (of_u64 w) (Fin 0) = (if w = 0 then NaN else PosInf)"
proof -
  obtain r where "of_u64 w = Fin r" "0 \<le> r" "r = 0 \<longleftrightarrow> w = 0" using of_u64_fin by blast
  then show ?thesis by (auto simp: fdiv_def signed_inf_def)
qed

lemma fdiv_negative_duration:
  assumes "sint d < 0"
  shows "le_zero (fdiv (of_u64 w) (of_i64 d))"
proof -
  obtain r where r: "of_u64 w = Fin r" "0 \<le> r" using of_u64_fin by blast
  obtain s where s: "of_i64 d = Fin s" "s < 0" using of_i64_neg[OF assms] by blast
  show ?thesis
  proof (cases "r = 0")
    case True
    then show ?thesis using r s by (simp add: fdiv_def signed_zero_def)
  next
    case False
    have "r / s \<le> 0" using r(2) s(2) by (simp add: divide_le_0_iff)
    then have "le_zero (to_double (r / s))" by (rule le_zero_to_double)
    then show ?thesis using False r s by (simp add: fdiv_def)
  qed
qed

section \<open>The parallel fill\<close>

lemma mset_concat_update:
  assumes "t < length pend" and "pend ! t = c # cs"
  shows "mset (concat pend) = add_mset c (mset (concat (pend[t := cs])))"
proof -
  have "pend = take t pend @ (c # cs) # drop (Suc t) pend"
    using assms by (metis id_take_nth_drop)
  then have "concat pend = concat (take t pend) @ (c # cs) @ concat (drop (Suc t) pend)"
    by (metis concat.simps(2) concat_append)
  moreover have "concat (pend[t := cs]) = concat (take t pend) @ cs @ concat (drop (Suc t) pend)"
    using assms(1) by (simp add: upd_conv_take_nth_drop)
  ultimately show ?thesis by simp
qed

lemma mset_interleave: "mset (map fst (interleave ts pend)) = mset (concat pend)"
proof (induction ts arbitrary: pend)
  case Nil
  show ?case by (simp add: comp_def)
next
  case (Cons ev ts)
  obtain t r where ev: "ev = (t, r)" by (cases ev)
  show ?case
  proof (cases "t < length pend")
    case False
    then show ?thesis using Cons.IH ev by simp
  next
    case True
    show ?thesis
    proof (cases "pend ! t")
      case Nil
      then show ?thesis using True Cons.IH ev by simp
    next
      case (Cons c cs)
      then show ?thesis
        using True Cons.IH[of "pend[t := cs]"] mset_concat_update[OF True Cons] ev by simp
    qed
  qed
qed

lemma mset_omp_parallel_for:
  "mset (map fst (omp_parallel_for sched rows cols)) = mset (List.product [0..<rows] [0..<cols])"
  unfolding omp_parallel_for_def mset_interleave by (simp add: product_concat_map)

lemma set_omp_parallel_for:
  "fst ` set (omp_parallel_for sched rows cols) = {0..<rows} \<times> {0..<cols}"
  using mset_eq_setD[OF mset_omp_parallel_for[of sched rows cols]] by simp

lemma cell_index_eq:
  assumes "i < rows" and "j < unat cols" and "rows * unat cols < 2 ^ 64"
  shows "cell_index cols (i, j) = i * unat cols + j"
proof -
  have "i * unat cols + j < (i + 1) * unat cols" using assms(2) by simp
  also have "\<dots> \<le> rows * unat cols" using assms(1) by (intro mult_le_mono1) simp
  finally have lt: "i * unat cols + j < 2 ^ 64" using assms(3) by simp
  have "cell_index cols (i, j) = unat (of_nat (i * unat cols + j) :: u64)" by simp
  also have "\<dots> = (i * unat cols + j) mod 2 ^ 64" by (simp only: unat_of_nat) simp
  also have "\<dots> = i * unat cols + j" using lt by simp
  finally show ?thesis .
qed

lemma cell_index_range:
  assumes "rows * unat cols < 2 ^ 64" and "c \<in> {0..<rows} \<times> {0..<unat cols}"
  shows "cell_index cols c < rows * unat cols"
proof -
  obtain i j where c: "c = (i, j)" by (cases c)
  have ij: "i < rows" "j < unat cols" using assms(2) c by auto
  have "i * unat cols + j < (i + 1) * unat cols" using ij(2) by simp
  also have "\<dots> \<le> rows * unat cols" using ij(1) by (intro mult_le_mono1) simp
  finally show ?thesis using cell_index_eq[OF ij assms(1)] c by simp
qed

lemma cell_index_onto:
  assumes nw: "rows * unat cols < 2 ^ 64" and k: "k < rows * unat cols"
  shows "k \<in> cell_index cols ` ({0..<rows} \<times> {0..<unat cols})"
proof -
  have pos: "0 < unat cols" using k by (cases "unat cols = 0") simp_all
  have i: "k div unat cols < rows" using k pos by (simp add: less_mult_imp_div_less)
  have j: "k mod unat cols < unat cols" using pos by simp
  have "cell_index cols (k div unat cols, k mod unat cols) = k"
    using cell_index_eq[OF i j nw] by simp
  moreover have "(k div unat cols, k mod unat cols) \<in> {0..<rows} \<times> {0..<unat cols}"
    using i j by simp
  ultimately show ?thesis by (metis imageI)
qed

lemma draw_same_engine:
  assumes "draw r g = (v, g')"
  shows "drawn_from (kind g) (seed g) v" and "kind g' = kind g" and "seed g' = seed g"
  using assms by (cases r; auto)+

lemma fill_cells_some:
  assumes "\<forall>ev \<in> set evs. cell_index stride (fst ev) < length buf"
  shows "\<exists>buf' g'. fill_cells stride evs (buf, g) = Some (buf', g')
            \<and> length buf' = length buf \<and> kind g' = kind g \<and> seed g' = seed g"
  using assms
proof (induction evs arbitrary: buf g)
  case Nil
  show ?case by simp
next
  case (Cons ev evs)
  obtain c r where ev: "ev = (c, r)" by (cases ev)
  obtain v g1 where d: "draw r g = (v, g1)" by (cases "draw r g")
  let ?buf1 = "buf[cell_index stride c := v]"
  have "\<forall>ev \<in> set evs. cell_index stride (fst ev) < length ?buf1" using Cons.prems by simp
  from Cons.IH[OF this, of g1] Cons.prems ev d draw_same_engine(2,3)[OF d]
  show ?case by simp
qed

lemma fill_cells_written:
  assumes "fill_cells stride evs (buf, g) = Some (buf', g')" and "k < length buf"
    and "k \<in> cell_index stride ` fst ` set evs \<or> drawn_from (kind g) (seed g) (buf ! k)"
  shows "drawn_from (kind g) (seed g) (buf' ! k)"
  using assms
proof (induction evs arbitrary: buf g)
  case Nil
  then show ?case by simp
next
  case (Cons ev evs)
  obtain c r where ev: "ev = (c, r)" by (cases ev)
  obtain v g1 where d: "draw r g = (v, g1)" by (cases "draw r g")
  let ?kc = "cell_index stride c"
  let ?buf1 = "buf[?kc := v]"
  from Cons.prems(1) ev d have kc: "?kc < length buf"
    and rec: "fill_cells stride evs (?buf1, g1) = Some (buf', g')"
    by (auto simp: Let_def split: if_splits)
  note same = draw_same_engine[OF d]
  have k1: "k < length ?buf1" using Cons.prems(2) by simp
  have "k \<in> cell_index stride ` fst ` set evs \<or> drawn_from (kind g1) (seed g1) (?buf1 ! k)"
  proof (cases "k = ?kc")
    case True
    then show ?thesis using kc same by simp
  next
    case False
    then show ?thesis using Cons.prems(3) ev same by auto
  qed
  from Cons.IH[OF rec k1 this] same show ?case by simp
qed

lemma fill_ok:
  assumes nw: "unat rows * unat cols < 2 ^ 64" and len: "length buf = unat rows * unat cols"
  shows "\<exists>buf' g'. fill sched rows cols (buf, g) = Some (buf', g')
            \<and> length buf' = unat rows * unat cols
            \<and> kind g' = kind g \<and> seed g' = seed g
            \<and> list_all (drawn_from (kind g) (seed g)) buf'"
proof -
  let ?evs = "omp_parallel_for sched (unat rows) (unat cols)"
  let ?n = "unat rows * unat cols"
  have set: "fst ` set ?evs = {0..<unat rows} \<times> {0..<unat cols}" by (rule set_omp_parallel_for)
  have inrange: "\<forall>ev \<in> set ?evs. cell_index cols (fst ev) < length buf"
    using cell_index_range[OF nw] set len by (metis imageI)
  obtain buf' g' where some: "fill_cells cols ?evs (buf, g) = Some (buf', g')"
    and len': "length buf' = length buf" and same: "kind g' = kind g" "seed g' = seed g"
    using fill_cells_some[OF inrange, of g] by blast
  have "drawn_from (kind g) (seed g) (buf' ! k)" if k: "k < length buf'" for k
  proof -
    have "k \<in> cell_index cols ` fst ` set ?evs"
      using cell_index_onto[OF nw, of k] k len' len set by simp
    then show ?thesis using fill_cells_written[OF some, of k] k len' by simp
  qed
  then have "list_all (drawn_from (kind g) (seed g)) buf'"
    by (simp add: list_all_length)
  then show ?thesis using some len' len same by (simp add: fill_def)
qed

lemma unat_mult_nowrap: "unat (a :: u64) * unat b < 2 ^ 64 \<Longrightarrow> unat (a * b) = unat a * unat b"
  by (simp add: unat_word_ariths)

lemma ip_operands_ok:
  assumes a: "unat N1 * unat M < 2 ^ 64" and b: "unat N2 * unat M < 2 ^ 64"
  shows "\<exists>mat_a g mat_b g'.
       fill (omp_schedule e IP_left N1 M) N1 M
         (replicate (unat (N1 * M)) Init, \<lparr>kind = MT19937_64, seed = 47, state = After 0\<rparr>)
         = Some (mat_a, g)
     \<and> fill (omp_schedule e IP_right N2 M) N2 M (replicate (unat (N2 * M)) Init, g)
         = Some (mat_b, g')
     \<and> ip_operands e N1 N2 M = Some (mat_a, mat_b)
     \<and> kind g = MT19937_64 \<and> seed g = 47
     \<and> length mat_a = unat N1 * unat M \<and> length mat_b = unat N2 * unat M
     \<and> list_all (drawn_from MT19937_64 47) mat_a
     \<and> list_all (drawn_from MT19937_64 47) mat_b"
proof -
  let ?g = "\<lparr>kind = MT19937_64, seed = 47, state = After 0\<rparr>"
  obtain mat_a g where fa: "fill (omp_schedule e IP_left N1 M) N1 M (replicate (unat (N1 * M)) Init, ?g)
       = Some (mat_a, g)"
    and la: "length mat_a = unat N1 * unat M" and g: "kind g = MT19937_64" "seed g = 47"
    and da: "list_all (drawn_from MT19937_64 47) mat_a"
    using fill_ok[OF a, of "replicate (unat (N1 * M)) Init" "omp_schedule e IP_left N1 M" ?g]
    by (auto simp: unat_mult_nowrap[OF a])
  obtain mat_b g' where fb: "fill (omp_schedule e IP_right N2 M) N2 M (replicate (unat (N2 * M)) Init, g)
       = Some (mat_b, g')"
    and lb: "length mat_b = unat N2 * unat M"
    and db: "list_all (drawn_from MT19937_64 47) mat_b"
    using fill_ok[OF b, of "replicate (unat (N2 * M)) Init" "omp_schedule e IP_right N2 M" g] g
    by (auto simp: unat_mult_nowrap[OF b])
  have "ip_operands e N1 N2 M = Some (mat_a, mat_b)"
    using fa fb by (simp add: ip_operands_def)
  then show ?thesis using fa fb la lb g da db by blast
qed

lemma gemm_operands_ok:
  assumes a: "unat N1 * unat M < 2 ^ 64" and b: "unat M * unat N2 < 2 ^ 64"
  shows "\<exists>mat_a g mat_b g'.
       fill (omp_schedule e GEMM_left N1 M) N1 M
         (replicate (unat (N1 * M)) Init, \<lparr>kind = MT19937, seed = 47, state = After 0\<rparr>)
         = Some (mat_a, g)
     \<and> fill (omp_schedule e GEMM_right M N2) M N2 (replicate (unat (M * N2)) Init, g)
         = Some (mat_b, g')
     \<and> gemm_operands e N1 N2 M = Some (mat_a, mat_b)
     \<and> kind g = MT19937 \<and> seed g = 47
     \<and> length mat_a = unat N1 * unat M \<and> length mat_b = unat M * unat N2
     \<and> list_all (drawn_from MT19937 47) mat_a
     \<and> list_all (drawn_from MT19937 47) mat_b"
proof -
  let ?g = "\<lparr>kind = MT19937, seed = 47, state = After 0\<rparr>"
  obtain mat_a g where fa: "fill (omp_schedule e GEMM_left N1 M) N1 M (replicate (unat (N1 * M)) Init, ?g)
       = Some (mat_a, g)"
    and la: "length mat_a = unat N1 * unat M" and g: "kind g = MT19937" "seed g = 47"
    and da: "list_all (drawn_from MT19937 47) mat_a"
    using fill_ok[OF a, of "replicate (unat (N1 * M)) Init" "omp_schedule e GEMM_left N1 M" ?g]
    by (auto simp: unat_mult_nowrap[OF a])
  obtain mat_b g' where fb: "fill (omp_schedule e GEMM_right M N2) M N2 (replicate (unat (M * N2)) Init, g)
       = Some (mat_b, g')"
    and lb: "length mat_b = unat M * unat N2"
    and db: "list_all (drawn_from MT19937 47) mat_b"
    using fill_ok[OF b, of "replicate (unat (M * N2)) Init" "omp_schedule e GEMM_right M N2" g] g
    by (auto simp: unat_mult_nowrap[OF b])
  have "gemm_operands e N1 N2 M = Some (mat_a, mat_b)"
    using fa fb by (simp add: gemm_operands_def)
  then show ?thesis using fa fb la lb g da db by blast
qed

section \<open>The driver\<close>

lemma run_ip_ok:
  assumes "unat N1 * unat M < 2 ^ 64" and "unat N2 * unat M < 2 ^ 64"
  shows "\<exists>mat_a mat_b. ip_operands e N1 N2 M = Some (mat_a, mat_b)
           \<and> run_ip e b N1 N2 M
             = Some (b\<lparr>pt := pt b @ [ip_row e (debug b) N1 N2 M mat_a mat_b]\<rparr>)"
proof -
  obtain mat_a mat_b where ops: "ip_operands e N1 N2 M = Some (mat_a, mat_b)"
    using ip_operands_ok[OF assms, of e] by blast
  then have "run_ip e b N1 N2 M = Some (b\<lparr>pt := pt b @ [ip_row e (debug b) N1 N2 M mat_a mat_b]\<rparr>)"
    by (simp add: run_ip_def)
  then show ?thesis using ops by blast
qed

lemma run_gemm_ok:
  assumes "unat N1 * unat M < 2 ^ 64" and "unat M * unat N2 < 2 ^ 64"
  shows "\<exists>mat_a mat_b. gemm_operands e N1 N2 M = Some (mat_a, mat_b)
           \<and> run_gemm e b N1 N2 M
             = Some (b\<lparr>pt := pt b @ [gemm_row e (debug b) N1 N2 M mat_a mat_b]\<rparr>)"
proof -
  obtain mat_a mat_b where ops: "gemm_operands e N1 N2 M = Some (mat_a, mat_b)"
    using gemm_operands_ok[OF assms, of e] by blast
  then have "run_gemm e b N1 N2 M = Some (b\<lparr>pt := pt b @ [gemm_row e (debug b) N1 N2 M mat_a mat_b]\<rparr>)"
    by (simp add: run_gemm_def)
  then show ?thesis using ops by blast
qed

lemma ip_row_cols [simp]:
  "col_mode (ip_row e dbg N1 N2 M a b) = ''IP / AMX''"
  "col_dims (ip_row e dbg N1 N2 M a b) = dims_string N1 N2 M"
  "col_data_size (ip_row e dbg N1 N2 M a b) = calc_data_size N1 N2 M"
  "col_total_flop (ip_row e dbg N1 N2 M a b) = of_u64 (total_flop N1 N2 M)"
  by (simp_all add: ip_row_def Let_def)

lemma gemm_row_cols [simp]:
  "col_mode (gemm_row e dbg N1 N2 M a b) = ''GEMM / AMX''"
  "col_dims (gemm_row e dbg N1 N2 M a b) = dims_string N1 N2 M"
  "col_data_size (gemm_row e dbg N1 N2 M a b) = calc_data_size N1 N2 M"
  "col_total_flop (gemm_row e dbg N1 N2 M a b) = of_u64 (total_flop N1 N2 M)"
  by (simp_all add: gemm_row_def Let_def)

lemma uint_total_flop:
  "uint (total_flop N1 N2 M) = (uint N1 * uint N2 * (2 * uint M - 1)) mod 2 ^ 64"
proof -
  have "uint (total_flop N1 N2 M) = (uint (N1 * N2) * uint (2 * M - 1)) mod 2 ^ 64"
    unfolding total_flop_def by (simp only: uint_word_ariths) simp
  also have "uint (N1 * N2) = (uint N1 * uint N2) mod 2 ^ 64"
    by (simp only: uint_word_ariths) simp
  also have "uint (2 * M - 1) = (uint (2 * M) - 1) mod 2 ^ 64"
    by (simp only: uint_word_ariths) simp
  also have "uint (2 * M) = (2 * uint M) mod 2 ^ 64"
    by (simp only: uint_word_ariths) simp
  finally show ?thesis by (simp add: mod_simps)
qed

lemma flop_formula_uint:
  "flop_formula (unat N1) (unat N2) (unat M) = uint N1 * uint N2 * (2 * uint M - 1)"
  by (simp add: flop_formula_def)

lemma uint_total_flop_formula:
  "uint (total_flop N1 N2 M) = flop_formula (unat N1) (unat N2) (unat M) mod 2 ^ 64"
  by (simp only: flop_formula_uint uint_total_flop)

lemma flop_formula_ge:
  assumes "0 < n1" "0 < n2" "0 < m"
  shows "int n1 * int m \<le> flop_formula n1 n2 m" and "int n2 * int m \<le> flop_formula n1 n2 m"
proof -
  have m: "int m \<le> 2 * int m - 1" using assms(3) by simp
  have "int n1 * int m \<le> (int n1 * int n2) * (2 * int m - 1)"
    using assms m by (intro mult_mono) simp_all
  then show "int n1 * int m \<le> flop_formula n1 n2 m" by (simp add: flop_formula_def)
  have "int n2 * int m \<le> (int n1 * int n2) * (2 * int m - 1)"
    using assms m by (intro mult_mono) simp_all
  then show "int n2 * int m \<le> flop_formula n1 n2 m" by (simp add: flop_formula_def)
qed

lemma nat_mult_lt_of_int:
  assumes "int a * int b \<le> k" and "k < 2 ^ 64"
  shows "a * b < 2 ^ 64"
proof -
  have "int (a * b) < 2 ^ 64" using assms by simp
  then show ?thesis by (metis of_nat_less_iff of_nat_numeral of_nat_power)
qed

section \<open>The operation count\<close>

lemma total_flop_exact:
  assumes pos: "0 < N1" "0 < N2" "0 < M"
    and small: "flop_formula (unat N1) (unat N2) (unat M) \<le> 2 ^ 53"
  shows "uint (total_flop N1 N2 M) = flop_formula (unat N1) (unat N2) (unat M)
       \<and> (\<exists>r. run_ip e b N1 N2 M = Some (b\<lparr>pt := pt b @ [r]\<rparr>)
             \<and> col_total_flop r = Fin (of_int (flop_formula (unat N1) (unat N2) (unat M))))
       \<and> (\<exists>r. run_gemm e b N1 N2 M = Some (b\<lparr>pt := pt b @ [r]\<rparr>)
             \<and> col_total_flop r = Fin (of_int (flop_formula (unat N1) (unat N2) (unat M))))"
proof -
  let ?F = "flop_formula (unat N1) (unat N2) (unat M)"
  have p: "0 < unat N1" "0 < unat N2" "0 < unat M" using pos by (simp_all add: word_less_nat_alt)
  have F64: "?F < 2 ^ 64" using small by simp
  have F0: "0 \<le> ?F" using flop_formula_ge(1)[OF p] by (simp add: order_trans[of 0 "int (unat N1) * int (unat M)"])
  have a: "unat N1 * unat M < 2 ^ 64" by (rule nat_mult_lt_of_int[OF flop_formula_ge(1)[OF p] F64])
  have b: "unat N2 * unat M < 2 ^ 64" by (rule nat_mult_lt_of_int[OF flop_formula_ge(2)[OF p] F64])
  have b': "unat M * unat N2 < 2 ^ 64" using b by (simp add: mult.commute)
  have "uint (total_flop N1 N2 M) = ?F mod 2 ^ 64"
    by (simp only: uint_total_flop_formula)
  then have u: "uint (total_flop N1 N2 M) = ?F"
    using F0 F64 by (simp only: mod_pos_pos_trivial)
  have cell: "of_u64 (total_flop N1 N2 M) = Fin (of_int ?F)"
    using of_u64_exact[of "total_flop N1 N2 M"] small by (simp add: u)
  obtain a1 b1 where "run_ip e b N1 N2 M = Some (b\<lparr>pt := pt b @ [ip_row e (debug b) N1 N2 M a1 b1]\<rparr>)"
    using run_ip_ok[OF a b] by blast
  then have ip: "\<exists>r. run_ip e b N1 N2 M = Some (b\<lparr>pt := pt b @ [r]\<rparr>) \<and> col_total_flop r = Fin (of_int ?F)"
    using cell by (intro exI[of _ "ip_row e (debug b) N1 N2 M a1 b1"]) simp
  obtain a2 b2 where "run_gemm e b N1 N2 M = Some (b\<lparr>pt := pt b @ [gemm_row e (debug b) N1 N2 M a2 b2]\<rparr>)"
    using run_gemm_ok[OF a b'] by blast
  then have gm: "\<exists>r. run_gemm e b N1 N2 M = Some (b\<lparr>pt := pt b @ [r]\<rparr>) \<and> col_total_flop r = Fin (of_int ?F)"
    using cell by (intro exI[of _ "gemm_row e (debug b) N1 N2 M a2 b2"]) simp
  show ?thesis using u ip gm by blast
qed

text \<open>
  C1 (as amended).  The \<open>uint64_t\<close> local \<open>total_flop\<close> is \<open>N1 * N2 * (2M - 1)\<close> modulo
  \<open>2\<^sup>6\<^sup>4\<close>.  For positive \<open>N1\<close>, \<open>N2\<close>, \<open>M\<close> whose product \<open>N1 * N2 * (2M - 1)\<close> is at most
  \<open>2\<^sup>5\<^sup>3\<close>, both \<open>run_ip\<close> and \<open>run_gemm\<close> append a row whose Total FLOP cell, a \<open>double\<close>, is
  exactly that product.
\<close>

theorem total_flop_recorded:
  "uint (total_flop N1 N2 M) = flop_formula (unat N1) (unat N2) (unat M) mod 2 ^ 64
   \<and> (0 < N1 \<and> 0 < N2 \<and> 0 < M \<and> flop_formula (unat N1) (unat N2) (unat M) \<le> 2 ^ 53 \<longrightarrow>
        (\<exists>r. run_ip e b N1 N2 M = Some (b\<lparr>pt := pt b @ [r]\<rparr>)
            \<and> col_total_flop r = Fin (of_int (flop_formula (unat N1) (unat N2) (unat M))))
      \<and> (\<exists>r. run_gemm e b N1 N2 M = Some (b\<lparr>pt := pt b @ [r]\<rparr>)
            \<and> col_total_flop r = Fin (of_int (flop_formula (unat N1) (unat N2) (unat M)))))"
proof (intro conjI impI)
  show "uint (total_flop N1 N2 M) = flop_formula (unat N1) (unat N2) (unat M) mod 2 ^ 64"
    by (rule uint_total_flop_formula)
next
  assume h: "0 < N1 \<and> 0 < N2 \<and> 0 < M \<and> flop_formula (unat N1) (unat N2) (unat M) \<le> 2 ^ 53"
  then show "\<exists>r. run_ip e b N1 N2 M = Some (b\<lparr>pt := pt b @ [r]\<rparr>)
            \<and> col_total_flop r = Fin (of_int (flop_formula (unat N1) (unat N2) (unat M)))"
    using total_flop_exact[of N1 N2 M e b] by blast
next
  assume h: "0 < N1 \<and> 0 < N2 \<and> 0 < M \<and> flop_formula (unat N1) (unat N2) (unat M) \<le> 2 ^ 53"
  then show "\<exists>r. run_gemm e b N1 N2 M = Some (b\<lparr>pt := pt b @ [r]\<rparr>)
            \<and> col_total_flop r = Fin (of_int (flop_formula (unat N1) (unat N2) (unat M)))"
    using total_flop_exact[of N1 N2 M e b] by blast
qed

text \<open>
  The configuration (2, 3, 4) of the specification records 42 in both modes, and
  (5, 7, 1) records 35.
\<close>

theorem total_flop_recorded_witness:
  "0 < (2::u64) \<and> 0 < (3::u64) \<and> 0 < (4::u64)
   \<and> flop_formula (unat (2::u64)) (unat (3::u64)) (unat (4::u64)) \<le> 2 ^ 53
   \<and> uint (total_flop 2 3 4) = 42
   \<and> (\<exists>r. run_ip (example_env 1000) (Benchmark False) 2 3 4
             = Some (Benchmark False\<lparr>pt := pt (Benchmark False) @ [r]\<rparr>)
          \<and> col_total_flop r = Fin 42)
   \<and> (\<exists>r. run_gemm (example_env 1000) (Benchmark False) 2 3 4
             = Some (Benchmark False\<lparr>pt := pt (Benchmark False) @ [r]\<rparr>)
          \<and> col_total_flop r = Fin 42)
   \<and> (\<exists>r. run_ip (example_env 1000) (Benchmark False) 5 7 1
             = Some (Benchmark False\<lparr>pt := pt (Benchmark False) @ [r]\<rparr>)
          \<and> col_total_flop r = Fin 35)"
  using total_flop_recorded[of 2 3 4 "example_env 1000" "Benchmark False"]
        total_flop_recorded[of 5 7 1 "example_env 1000" "Benchmark False"]
  by (simp add: flop_formula_def)

lemma of_u64_0 [simp]: "of_u64 0 = Fin 0"
  using of_u64_exact[of 0] by simp

text \<open>
  C1 as stated fails where the product leaves 64 bits: for \<open>N1 = N2 = 2\<^sup>3\<^sup>2\<close> and \<open>M = 1\<close>
  (two operands of 8 GiB) the formula gives \<open>2\<^sup>6\<^sup>4\<close> and the row records 0.
\<close>

theorem total_flop_overflow_counterexample:
  "map_option (map col_total_flop \<circ> pt)
       (run_ip (example_env 1000) (Benchmark False) (2 ^ 32) (2 ^ 32) 1) = Some [Fin 0]
   \<and> flop_formula (unat (2 ^ 32 :: u64)) (unat (2 ^ 32 :: u64)) (unat (1 :: u64)) = 2 ^ 64"
proof -
  have tf: "total_flop 4294967296 4294967296 1 = 0" by (simp add: total_flop_def)
  obtain a b where "run_ip (example_env 1000) (Benchmark False) (2 ^ 32) (2 ^ 32) 1
      = Some (Benchmark False\<lparr>pt := pt (Benchmark False) @ [ip_row (example_env 1000) (debug (Benchmark False)) (2 ^ 32) (2 ^ 32) 1 a b]\<rparr>)"
    using run_ip_ok[of "2 ^ 32" 1 "2 ^ 32" "example_env 1000" "Benchmark False"] by auto
  then show ?thesis by (simp add: tf Benchmark_def flop_formula_def)
qed

lemma neg_mod_formula: "(x * (2 ^ 64 - 1)) mod 2 ^ 64 = (- x) mod (2 ^ 64 :: int)"
proof -
  have "x * (2 ^ 64 - 1) = - x + x * 2 ^ 64" by (simp add: algebra_simps)
  then show ?thesis by (simp only: mod_mult_self1)
qed

lemma round_half_even_near: "\<bar>rat_of_int (round_half_even y) - y\<bar> \<le> 1 / 2"
proof -
  have "rat_of_int \<lfloor>y\<rfloor> \<le> y" "y < rat_of_int \<lfloor>y\<rfloor> + 1" by linarith+
  then show ?thesis by (auto simp: round_half_even_def Let_def abs_le_iff)
qed

lemma rnd_near: "\<bar>rnd x - x\<bar> \<le> quantum x / 2"
proof (cases "x = 0")
  case True
  then show ?thesis using quantum_pos[of 0] by (simp add: rnd_def)
next
  case False
  define y where "y = x / quantum x"
  have q: "0 < quantum x" by (rule quantum_pos)
  have x: "x = y * quantum x" using q by (simp add: y_def)
  have "rnd x - x = (rat_of_int (round_half_even y) - y) * quantum x"
    using False q by (simp add: rnd_def y_def algebra_simps)
  then have "\<bar>rnd x - x\<bar> = \<bar>rat_of_int (round_half_even y) - y\<bar> * quantum x"
    using q by (simp add: abs_mult)
  also have "\<dots> \<le> (1 / 2) * quantum x"
    using round_half_even_near[of y] q by (intro mult_right_mono) simp_all
  finally show ?thesis by simp
qed

lemma quantum_u64:
  assumes "0 < x" and "x < 2 ^ 64"
  shows "quantum x \<le> 2048"
proof -
  have "(2::rat) powi (flog2 x) < 2 powi 64" using flog2_le[OF assms(1)] assms(2) by simp
  then have "flog2 x < 64"
    by (metis linorder_not_less power_int_increasing one_le_numeral)
  then have "max (flog2 \<bar>x\<bar>) (- 1022) - 52 \<le> 11" using assms(1) by simp
  then have "(2::rat) powi (max (flog2 \<bar>x\<bar>) (- 1022) - 52) \<le> 2 powi 11"
    by (intro power_int_increasing) simp_all
  then show ?thesis by (simp add: quantum_def)
qed

lemma of_u64_rnd: "of_u64 w = Fin (rnd (rat_of_int (uint w)))"
proof -
  define x where "x = rat_of_int (uint w)"
  have "rat_of_int 0 \<le> rat_of_int (uint w)" by (simp only: of_int_le_iff) simp
  then have x0: "0 \<le> x" by (simp add: x_def)
  have "uint w < 2 ^ 64" using uint_lt2p[of w] by simp
  then have "rat_of_int (uint w) < rat_of_int (2 ^ 64)" by (simp only: of_int_less_iff)
  then have "\<bar>x\<bar> \<le> 2 ^ 64" using x0 by (simp add: x_def)
  then have b: "\<bar>rnd x\<bar> < 2 ^ 1024" by (rule to_double_fin)
  have r0: "0 \<le> rnd x" using x0 by (rule rnd_nonneg)
  show ?thesis using b r0 x0 by (auto simp: of_u64_def to_double_def x_def Let_def)
qed

lemma rnd_u64_near: "\<bar>rnd (rat_of_int (uint (w :: u64))) - rat_of_int (uint w)\<bar> \<le> 1024"
proof (cases "uint w = 0")
  case True
  then show ?thesis by (simp add: rnd_def)
next
  case False
  define x where "x = rat_of_int (uint w)"
  have "0 < uint w" using False by (simp add: order_less_le)
  then have "rat_of_int 0 < rat_of_int (uint w)" by (simp only: of_int_less_iff)
  then have x0: "0 < x" by (simp add: x_def)
  have "uint w < 2 ^ 64" using uint_lt2p[of w] by simp
  then have "rat_of_int (uint w) < rat_of_int (2 ^ 64)" by (simp only: of_int_less_iff)
  then have x1: "x < 2 ^ 64" by (simp add: x_def)
  have "\<bar>rnd x - x\<bar> \<le> quantum x / 2" by (rule rnd_near)
  also have "\<dots> \<le> 2048 / 2" using quantum_u64[OF x0 x1] by simp
  finally show ?thesis by (simp add: x_def)
qed

lemma rnd_u64_top:
  assumes "2 ^ 64 - 1024 \<le> uint (w :: u64)"
  shows "rnd (rat_of_int (uint w)) = 2 ^ 64"
proof -
  define x where "x = rat_of_int (uint w)"
  have "rat_of_int (2 ^ 64 - 1024) \<le> rat_of_int (uint w)" using assms by (simp only: of_int_le_iff)
  then have lo: "2 ^ 64 - 1024 \<le> x" by (simp add: x_def)
  have "uint w < 2 ^ 64" using uint_lt2p[of w] by simp
  then have "rat_of_int (uint w) < rat_of_int (2 ^ 64)" by (simp only: of_int_less_iff)
  then have hi: "x < 2 ^ 64" by (simp add: x_def)
  have x0: "x \<noteq> 0" using lo by auto
  have ax: "\<bar>x\<bar> = x" using lo by simp
  have fl: "flog2 \<bar>x\<bar> = 63"
    unfolding ax by (rule flog2_eq) (use lo hi in \<open>simp_all add: power_int_def\<close>)
  have q: "quantum x = 2048" by (simp add: quantum_def fl power_int_def)
  define y where "y = x / 2048"
  have ylo: "2 ^ 53 - 1 / 2 \<le> y" using lo by (simp add: y_def)
  have yhi: "y < 2 ^ 53" using hi by (simp add: y_def)
  have f: "\<lfloor>y\<rfloor> = 2 ^ 53 - 1"
    by (rule floor_unique) (use ylo yhi in simp_all)
  have rh: "round_half_even y = 2 ^ 53"
    using ylo by (auto simp: round_half_even_def Let_def f)
  have "rnd x = rat_of_int (round_half_even (x / quantum x)) * quantum x"
    using x0 by (simp add: rnd_def)
  also have "\<dots> = rat_of_int (round_half_even y) * 2048" by (simp only: q y_def)
  also have "\<dots> = 2 ^ 64" by (simp add: rh)
  finally show ?thesis by (simp only: x_def)
qed

text \<open>
  C10 (as amended).  With \<open>M = 0\<close> the factor \<open>2 * M - 1\<close> is \<open>2\<^sup>6\<^sup>4 - 1\<close> in \<open>uint64_t\<close>: the
  local \<open>total_flop\<close> is \<open>N1 * N2 * (2\<^sup>6\<^sup>4 - 1)\<close> modulo \<open>2\<^sup>6\<^sup>4\<close>, which is \<open>2\<^sup>6\<^sup>4\<close> less the
  wrapped product \<open>N1 * N2\<close> when that is not zero.  Neither \<open>run_ip\<close> nor \<open>run_gemm\<close>
  rejects the configuration.  The count each of them records is the Total FLOP cell of
  the row, a \<open>double\<close>: the value \<open>x\<close> of \<open>(double)total_flop\<close>, which is the wrapped count
  rounded to the nearest \<open>double\<close>.  It is not negative, it is within 1024 of the wrapped
  count, it is the wrapped count itself when that is at most \<open>2\<^sup>5\<^sup>3\<close>, and it is \<open>2\<^sup>6\<^sup>4\<close>
  when the wrapped product \<open>N1 * N2\<close> lies between 1 and 1024.
\<close>

theorem zero_M_count_recorded:
  "uint (total_flop N1 N2 0) = (uint N1 * uint N2 * (2 ^ 64 - 1)) mod 2 ^ 64
   \<and> ((uint N1 * uint N2) mod 2 ^ 64 \<noteq> 0 \<longrightarrow>
        uint (total_flop N1 N2 0) = 2 ^ 64 - (uint N1 * uint N2) mod 2 ^ 64)
   \<and> (\<exists>x. x = rnd (of_int (uint (total_flop N1 N2 0)))
        \<and> 0 \<le> x \<and> \<bar>x - of_int (uint (total_flop N1 N2 0))\<bar> \<le> 1024
        \<and> (uint (total_flop N1 N2 0) \<le> 2 ^ 53 \<longrightarrow> x = of_int (uint (total_flop N1 N2 0)))
        \<and> (0 < (uint N1 * uint N2) mod 2 ^ 64 \<and> (uint N1 * uint N2) mod 2 ^ 64 \<le> 1024
             \<longrightarrow> x = 2 ^ 64)
        \<and> (\<exists>r. run_ip e b N1 N2 0 = Some (b\<lparr>pt := pt b @ [r]\<rparr>) \<and> col_total_flop r = Fin x)
        \<and> (\<exists>r. run_gemm e b N1 N2 0 = Some (b\<lparr>pt := pt b @ [r]\<rparr>) \<and> col_total_flop r = Fin x))"
proof -
  let ?k = "uint N1 * uint N2"
  define tf where "tf = total_flop N1 N2 0"
  define x where "x = rnd (rat_of_int (uint tf))"
  have u: "uint tf = (- ?k) mod 2 ^ 64"
    unfolding tf_def using uint_total_flop[of N1 N2 0] by simp
  have c1: "uint tf = (?k * (2 ^ 64 - 1)) mod 2 ^ 64"
    by (simp only: u neg_mod_formula)
  have c2: "?k mod 2 ^ 64 \<noteq> 0 \<longrightarrow> uint tf = 2 ^ 64 - ?k mod 2 ^ 64"
    by (simp add: u zmod_zminus1_eq_if)
  have cell: "of_u64 tf = Fin x" by (simp only: x_def of_u64_rnd)
  have "rat_of_int 0 \<le> rat_of_int (uint tf)" by (simp only: of_int_le_iff) simp
  then have x0: "0 \<le> x" unfolding x_def by (intro rnd_nonneg) simp
  have near: "\<bar>x - rat_of_int (uint tf)\<bar> \<le> 1024" unfolding x_def by (rule rnd_u64_near)
  have small: "uint tf \<le> 2 ^ 53 \<longrightarrow> x = rat_of_int (uint tf)"
  proof
    assume "uint tf \<le> 2 ^ 53"
    then have "of_u64 tf = Fin (rat_of_int (uint tf))" by (intro of_u64_exact) simp
    then show "x = rat_of_int (uint tf)" using cell by simp
  qed
  have top: "0 < ?k mod 2 ^ 64 \<and> ?k mod 2 ^ 64 \<le> 1024 \<longrightarrow> x = 2 ^ 64"
  proof
    assume h: "0 < ?k mod 2 ^ 64 \<and> ?k mod 2 ^ 64 \<le> 1024"
    then have "uint tf = 2 ^ 64 - ?k mod 2 ^ 64" using c2 by simp
    then have "2 ^ 64 - 1024 \<le> uint tf" using h by simp
    then show "x = 2 ^ 64" unfolding x_def by (rule rnd_u64_top)
  qed
  obtain a1 b1 where "run_ip e b N1 N2 0 = Some (b\<lparr>pt := pt b @ [ip_row e (debug b) N1 N2 0 a1 b1]\<rparr>)"
    using run_ip_ok[of N1 0 N2 e b] by auto
  then have ip: "\<exists>r. run_ip e b N1 N2 0 = Some (b\<lparr>pt := pt b @ [r]\<rparr>) \<and> col_total_flop r = Fin x"
    using cell by (intro exI[of _ "ip_row e (debug b) N1 N2 0 a1 b1"]) (simp add: tf_def)
  obtain a2 b2 where "run_gemm e b N1 N2 0 = Some (b\<lparr>pt := pt b @ [gemm_row e (debug b) N1 N2 0 a2 b2]\<rparr>)"
    using run_gemm_ok[of N1 0 N2 e b] by auto
  then have gm: "\<exists>r. run_gemm e b N1 N2 0 = Some (b\<lparr>pt := pt b @ [r]\<rparr>) \<and> col_total_flop r = Fin x"
    using cell by (intro exI[of _ "gemm_row e (debug b) N1 N2 0 a2 b2"]) (simp add: tf_def)
  have "\<exists>x. x = rnd (of_int (uint tf))
        \<and> 0 \<le> x \<and> \<bar>x - of_int (uint tf)\<bar> \<le> 1024
        \<and> (uint tf \<le> 2 ^ 53 \<longrightarrow> x = of_int (uint tf))
        \<and> (0 < ?k mod 2 ^ 64 \<and> ?k mod 2 ^ 64 \<le> 1024 \<longrightarrow> x = 2 ^ 64)
        \<and> (\<exists>r. run_ip e b N1 N2 0 = Some (b\<lparr>pt := pt b @ [r]\<rparr>) \<and> col_total_flop r = Fin x)
        \<and> (\<exists>r. run_gemm e b N1 N2 0 = Some (b\<lparr>pt := pt b @ [r]\<rparr>) \<and> col_total_flop r = Fin x)"
    by (intro exI[of _ x] conjI x_def x0 near small top ip gm)
  then show ?thesis unfolding tf_def[symmetric] by (intro conjI c1 c2)
qed

text \<open>\<open>2\<^sup>6\<^sup>4 - 6\<close> is not a \<open>double\<close>; the nearest one is \<open>2\<^sup>6\<^sup>4\<close>.\<close>

lemma of_u64_minus_6: "of_u64 (- 6) = Fin 18446744073709551616"
  unfolding of_u64_def
  by (rule trans[OF to_double_eval[where e = 63, OF _ _ _ _ refl]])
     (simp_all add: round_evals)

text \<open>
  For \<open>N1 = 2\<close>, \<open>N2 = 3\<close> the wrapped count is \<open>2\<^sup>6\<^sup>4 - 6\<close> and both modes record \<open>2\<^sup>6\<^sup>4\<close>; for
  \<open>N1 = 2\<^sup>3\<^sup>2\<close>, \<open>N2 = 2\<^sup>3\<^sup>2 - 1\<close> the wrapped count is \<open>2\<^sup>3\<^sup>2\<close> and is recorded as it is.
\<close>

theorem zero_M_count_recorded_witness:
  "(uint (2::u64) * uint (3::u64)) mod 2 ^ 64 \<noteq> 0
   \<and> 0 < (uint (2::u64) * uint (3::u64)) mod 2 ^ 64
   \<and> (uint (2::u64) * uint (3::u64)) mod 2 ^ 64 \<le> 1024
   \<and> uint (total_flop 2 3 0) = 2 ^ 64 - 6
   \<and> (\<exists>r. run_ip (example_env 1000) (Benchmark False) 2 3 0
             = Some (Benchmark False\<lparr>pt := pt (Benchmark False) @ [r]\<rparr>)
          \<and> col_total_flop r = Fin (2 ^ 64))
   \<and> (\<exists>r. run_gemm (example_env 1000) (Benchmark False) 2 3 0
             = Some (Benchmark False\<lparr>pt := pt (Benchmark False) @ [r]\<rparr>)
          \<and> col_total_flop r = Fin (2 ^ 64))
   \<and> uint (total_flop (2 ^ 32) (2 ^ 32 - 1) 0) \<le> 2 ^ 53
   \<and> uint (total_flop (2 ^ 32) (2 ^ 32 - 1) 0) = 2 ^ 32
   \<and> (\<exists>r. run_ip (example_env 1000) (Benchmark False) (2 ^ 32) (2 ^ 32 - 1) 0
             = Some (Benchmark False\<lparr>pt := pt (Benchmark False) @ [r]\<rparr>)
          \<and> col_total_flop r = Fin (2 ^ 32))"
proof -
  have a: "(uint (2::u64) * uint (3::u64)) mod 2 ^ 64 = 6" by simp
  have b: "(uint (2 ^ 32 :: u64) * uint (2 ^ 32 - 1 :: u64)) mod 2 ^ 64 = 2 ^ 64 - 2 ^ 32" by simp
  have t1: "uint (total_flop 2 3 0) = 18446744073709551610" by (simp add: total_flop_def)
  have t2: "uint (total_flop (2 ^ 32) (2 ^ 32 - 1) 0) = 4294967296" by (simp add: total_flop_def)
  show ?thesis
    using zero_M_count_recorded[of 2 3 "example_env 1000" "Benchmark False"]
          zero_M_count_recorded[of "2 ^ 32" "2 ^ 32 - 1" "example_env 1000" "Benchmark False"]
    unfolding a b t1 t2 by auto
qed

text \<open>
  C10 as stated fails for the count that is recorded: \<open>run_gemm(2, 3, 0)\<close> records
  \<open>2\<^sup>6\<^sup>4\<close>, while \<open>(2 * 3 * (2\<^sup>6\<^sup>4 - 1)) mod 2\<^sup>6\<^sup>4\<close>, the value of the \<open>uint64_t\<close> local, is
  \<open>2\<^sup>6\<^sup>4 - 6\<close>.
\<close>

theorem zero_M_count_rounded_counterexample:
  "map_option (map col_total_flop \<circ> pt)
       (run_gemm (example_env 1000) (Benchmark False) 2 3 0) = Some [Fin 18446744073709551616]
   \<and> (uint (2::u64) * uint (3::u64) * (2 ^ 64 - 1)) mod 2 ^ 64 = 18446744073709551610
   \<and> uint (total_flop 2 3 0) = 18446744073709551610"
proof -
  have tf: "total_flop 2 3 0 = - 6" by (simp add: total_flop_def)
  obtain a b where "run_gemm (example_env 1000) (Benchmark False) 2 3 0
      = Some (Benchmark False\<lparr>pt := pt (Benchmark False) @ [gemm_row (example_env 1000) (debug (Benchmark False)) 2 3 0 a b]\<rparr>)"
    using run_gemm_ok[of 2 0 3 "example_env 1000" "Benchmark False"] by auto
  then show ?thesis
    by (simp add: tf Benchmark_def of_u64_minus_6)
qed

section \<open>The data size\<close>

text \<open>
  C2 (as amended).  For every configuration with \<open>N1 * M + N2 * M < 2\<^sup>5\<^sup>3\<close> elements,
  \<open>calc_data_size\<close> returns exactly \<open>(N1 * M + N2 * M) * 2 / 2\<^sup>2\<^sup>0\<close>, and both \<open>run_ip\<close> and
  \<open>run_gemm\<close> record that value: under this bound neither product wraps, both
  conversions and the sum are exact, and the divisor \<open>(double)(2 << 19)\<close> is \<open>2\<^sup>2\<^sup>0\<close>.
\<close>

theorem data_size_recorded:
  assumes "unat N1 * unat M + unat N2 * unat M < 2 ^ 53"
  shows "calc_data_size N1 N2 M = Fin (data_size_formula (unat N1) (unat N2) (unat M))
       \<and> (\<exists>r. run_ip e b N1 N2 M = Some (b\<lparr>pt := pt b @ [r]\<rparr>)
             \<and> col_data_size r = Fin (data_size_formula (unat N1) (unat N2) (unat M)))
       \<and> (\<exists>r. run_gemm e b N1 N2 M = Some (b\<lparr>pt := pt b @ [r]\<rparr>)
             \<and> col_data_size r = Fin (data_size_formula (unat N1) (unat N2) (unat M)))"
proof -
  have a: "unat N1 * unat M < 2 ^ 64" and b: "unat N2 * unat M < 2 ^ 64"
    using assms by simp_all
  have b': "unat M * unat N2 < 2 ^ 64" using b by (simp add: mult.commute)
  note ds = calc_data_size_exact[OF assms]
  obtain a1 b1 where "run_ip e b N1 N2 M = Some (b\<lparr>pt := pt b @ [ip_row e (debug b) N1 N2 M a1 b1]\<rparr>)"
    using run_ip_ok[OF a b] by blast
  then have ip: "\<exists>r. run_ip e b N1 N2 M = Some (b\<lparr>pt := pt b @ [r]\<rparr>)
             \<and> col_data_size r = Fin (data_size_formula (unat N1) (unat N2) (unat M))"
    using ds by (intro exI[of _ "ip_row e (debug b) N1 N2 M a1 b1"]) simp
  obtain a2 b2 where "run_gemm e b N1 N2 M = Some (b\<lparr>pt := pt b @ [gemm_row e (debug b) N1 N2 M a2 b2]\<rparr>)"
    using run_gemm_ok[OF a b'] by blast
  then have gm: "\<exists>r. run_gemm e b N1 N2 M = Some (b\<lparr>pt := pt b @ [r]\<rparr>)
             \<and> col_data_size r = Fin (data_size_formula (unat N1) (unat N2) (unat M))"
    using ds by (intro exI[of _ "gemm_row e (debug b) N1 N2 M a2 b2"]) simp
  show ?thesis using ds ip gm by blast
qed

text \<open>The configuration (1024, 1024, 1024) records exactly 4.\<close>

theorem data_size_recorded_witness:
  "unat (1024::u64) * unat (1024::u64) + unat (1024::u64) * unat (1024::u64) < 2 ^ 53
   \<and> calc_data_size 1024 1024 1024 = Fin 4
   \<and> (\<exists>r. run_ip (example_env 1000) (Benchmark False) 1024 1024 1024
             = Some (Benchmark False\<lparr>pt := pt (Benchmark False) @ [r]\<rparr>) \<and> col_data_size r = Fin 4)
   \<and> (\<exists>r. run_gemm (example_env 1000) (Benchmark False) 1024 1024 1024
             = Some (Benchmark False\<lparr>pt := pt (Benchmark False) @ [r]\<rparr>) \<and> col_data_size r = Fin 4)"
  using data_size_recorded[of 1024 1024 1024 "example_env 1000" "Benchmark False"]
  by (simp add: data_size_formula_def)

text \<open>\<open>2\<^sup>5\<^sup>4 + 2\<close> lies halfway between two doubles and rounds to the even one.\<close>

lemma to_double_2p54_2: "to_double 18014398509481986 = Fin 18014398509481984"
  by (rule trans[OF to_double_eval[where e = 54, OF _ _ _ _ refl]])
     (simp_all add: round_evals)

text \<open>
  C2 as stated fails for large operands: with \<open>N1 = 2\<^sup>5\<^sup>3 + 1\<close> and \<open>N2 = M = 1\<close> the byte
  count \<open>2\<^sup>5\<^sup>4 + 2\<close> of the left operand is not a \<open>double\<close>; the function returns \<open>2\<^sup>3\<^sup>4\<close>
  where the formula gives \<open>2\<^sup>3\<^sup>4 + 2\<^sup>-\<^sup>1\<^sup>8\<close>.  (From \<open>N1 * M = 2\<^sup>6\<^sup>3\<close> on, the byte count
  itself wraps.)
\<close>

theorem data_size_rounding_counterexample:
  "calc_data_size 9007199254740993 1 1 = Fin 17179869184
   \<and> data_size_formula (unat (9007199254740993 :: u64)) (unat (1 :: u64)) (unat (1 :: u64))
       = 17179869184 + 1 / 262144"
proof -
  have a: "of_u64 (9007199254740993 * 1 * sizeof_bf16) = Fin 18014398509481984"
    by (simp add: of_u64_def sizeof_bf16_def to_double_2p54_2)
  have b: "of_u64 (1 * 1 * sizeof_bf16) = Fin 2"
    using of_u64_exact[of 2] by (simp add: sizeof_bf16_def)
  have s: "fadd (Fin 18014398509481984) (Fin 2) = Fin 18014398509481984"
    by (simp add: fadd_def to_double_2p54_2)
  have "to_double (of_int 17179869184) = Fin (of_int 17179869184)" by (rule to_double_int) simp
  then have d: "fdiv (Fin 18014398509481984) (Fin 1048576) = Fin 17179869184"
    by (simp add: fdiv_def)
  have "calc_data_size 9007199254740993 1 1 = Fin 17179869184"
    by (simp only: calc_data_size_def a b s d of_int32_shift)
  then show ?thesis by (simp add: data_size_formula_def)
qed

section \<open>Degenerate configurations and durations\<close>

lemma ip_row_time [simp]:
  "col_duration (ip_row e dbg N1 N2 M a b)
     = of_i64 (amx_inner_product e \<lparr>arg_N1 = N1, arg_N2 = N2, arg_M = M, arg_mat_a = a,
                                     arg_mat_b = b, arg_debug = dbg\<rparr>)"
  "col_gflops (ip_row e dbg N1 N2 M a b)
     = fdiv (of_u64 (total_flop N1 N2 M))
            (of_i64 (amx_inner_product e \<lparr>arg_N1 = N1, arg_N2 = N2, arg_M = M, arg_mat_a = a,
                                            arg_mat_b = b, arg_debug = dbg\<rparr>))"
  by (simp_all add: ip_row_def Let_def)

lemma gemm_row_time [simp]:
  "col_duration (gemm_row e dbg N1 N2 M a b)
     = of_i64 (amx_matmul e \<lparr>arg_N1 = N1, arg_N2 = N2, arg_M = M, arg_mat_a = a,
                              arg_mat_b = b, arg_debug = dbg\<rparr>)"
  "col_gflops (gemm_row e dbg N1 N2 M a b)
     = fdiv (of_u64 (total_flop N1 N2 M))
            (of_i64 (amx_matmul e \<lparr>arg_N1 = N1, arg_N2 = N2, arg_M = M, arg_mat_a = a,
                                     arg_mat_b = b, arg_debug = dbg\<rparr>))"
  by (simp_all add: gemm_row_def Let_def)

lemma calc_data_size_M0: "calc_data_size N1 N2 0 = Fin 0"
  using calc_data_size_exact[of N1 0 N2] by (simp add: data_size_formula_def)

text \<open>
  C5 (as amended).  The driver has no check on its arguments: for \<open>M = 0\<close> both \<open>run_ip\<close>
  and \<open>run_gemm\<close> return normally and append a row like any other, labelled with the
  dimensions \<open>N1/N2/0\<close>, with data size 0 and with the wrapped operation count
  \<open>-(N1 * N2)\<close> of 64-bit arithmetic converted to \<open>double\<close>.
\<close>

theorem zero_M_not_rejected:
  "(\<exists>r. run_ip e b N1 N2 0 = Some (b\<lparr>pt := pt b @ [r]\<rparr>)
        \<and> col_mode r = ''IP / AMX'' \<and> col_dims r = dims_string N1 N2 0
        \<and> col_data_size r = Fin 0 \<and> col_total_flop r = of_u64 (- (N1 * N2)))
   \<and> (\<exists>r. run_gemm e b N1 N2 0 = Some (b\<lparr>pt := pt b @ [r]\<rparr>)
        \<and> col_mode r = ''GEMM / AMX'' \<and> col_dims r = dims_string N1 N2 0
        \<and> col_data_size r = Fin 0 \<and> col_total_flop r = of_u64 (- (N1 * N2)))"
proof -
  have tf: "total_flop N1 N2 0 = - (N1 * N2)" by (simp add: total_flop_def)
  obtain a1 b1 where "run_ip e b N1 N2 0 = Some (b\<lparr>pt := pt b @ [ip_row e (debug b) N1 N2 0 a1 b1]\<rparr>)"
    using run_ip_ok[of N1 0 N2 e b] by auto
  then have ip: "\<exists>r. run_ip e b N1 N2 0 = Some (b\<lparr>pt := pt b @ [r]\<rparr>)
        \<and> col_mode r = ''IP / AMX'' \<and> col_dims r = dims_string N1 N2 0
        \<and> col_data_size r = Fin 0 \<and> col_total_flop r = of_u64 (- (N1 * N2))"
    by (intro exI[of _ "ip_row e (debug b) N1 N2 0 a1 b1"]) (simp add: calc_data_size_M0 tf)
  obtain a2 b2 where "run_gemm e b N1 N2 0 = Some (b\<lparr>pt := pt b @ [gemm_row e (debug b) N1 N2 0 a2 b2]\<rparr>)"
    using run_gemm_ok[of N1 0 N2 e b] by auto
  then have gm: "\<exists>r. run_gemm e b N1 N2 0 = Some (b\<lparr>pt := pt b @ [r]\<rparr>)
        \<and> col_mode r = ''GEMM / AMX'' \<and> col_dims r = dims_string N1 N2 0
        \<and> col_data_size r = Fin 0 \<and> col_total_flop r = of_u64 (- (N1 * N2))"
    by (intro exI[of _ "gemm_row e (debug b) N1 N2 0 a2 b2"]) (simp add: calc_data_size_M0 tf)
  show ?thesis using ip gm by blast
qed

text \<open>
  C5 as stated fails: \<open>run_ip(2, 3, 0)\<close> is not rejected, and the row it appends shows
  \<open>2\<^sup>6\<^sup>4\<close> operations.
\<close>

theorem zero_M_counterexample:
  "map_option (map col_dims \<circ> pt) (run_ip (example_env 1000) (Benchmark False) 2 3 0)
     = Some [''2/3/0'']
   \<and> map_option (map col_total_flop \<circ> pt) (run_ip (example_env 1000) (Benchmark False) 2 3 0)
     = Some [Fin 18446744073709551616]"
proof -
  have tf: "total_flop 2 3 0 = - 6" by (simp add: total_flop_def)
  obtain a b where "run_ip (example_env 1000) (Benchmark False) 2 3 0
      = Some (Benchmark False\<lparr>pt := pt (Benchmark False) @ [ip_row (example_env 1000) (debug (Benchmark False)) 2 3 0 a b]\<rparr>)"
    using run_ip_ok[of 2 0 3 "example_env 1000" "Benchmark False"] by auto
  then show ?thesis
    by (simp add: tf Benchmark_def of_u64_minus_6 dims_string_def to_string.simps digit_def)
qed

text \<open>
  C6 (as amended).  The driver does not inspect the duration the kernel returns.  In
  every configuration whose operands can be indexed, \<open>run_ip\<close> and \<open>run_gemm\<close> append the
  row with the duration as returned and the throughput \<open>total_flop / duration\<close> of
  \<open>double\<close> arithmetic: for a zero duration that is plus infinity (NaN when
  \<open>total_flop\<close> is 0 as well), for a negative duration a value that is not positive.
\<close>

theorem degenerate_duration_unchecked:
  assumes "unat N1 * unat M < 2 ^ 64" and "unat N2 * unat M < 2 ^ 64"
  shows "(\<exists>mat_a mat_b r. ip_operands e N1 N2 M = Some (mat_a, mat_b)
          \<and> run_ip e b N1 N2 M = Some (b\<lparr>pt := pt b @ [r]\<rparr>)
          \<and> (let dur = amx_inner_product e
                   \<lparr>arg_N1 = N1, arg_N2 = N2, arg_M = M, arg_mat_a = mat_a,
                    arg_mat_b = mat_b, arg_debug = debug b\<rparr>
              in col_duration r = of_i64 dur
               \<and> col_gflops r = fdiv (of_u64 (total_flop N1 N2 M)) (of_i64 dur)
               \<and> (dur = 0 \<longrightarrow> col_gflops r = (if total_flop N1 N2 M = 0 then NaN else PosInf))
               \<and> (sint dur < 0 \<longrightarrow> le_zero (col_gflops r))))
       \<and> (\<exists>mat_a mat_b r. gemm_operands e N1 N2 M = Some (mat_a, mat_b)
          \<and> run_gemm e b N1 N2 M = Some (b\<lparr>pt := pt b @ [r]\<rparr>)
          \<and> (let dur = amx_matmul e
                   \<lparr>arg_N1 = N1, arg_N2 = N2, arg_M = M, arg_mat_a = mat_a,
                    arg_mat_b = mat_b, arg_debug = debug b\<rparr>
              in col_duration r = of_i64 dur
               \<and> col_gflops r = fdiv (of_u64 (total_flop N1 N2 M)) (of_i64 dur)
               \<and> (dur = 0 \<longrightarrow> col_gflops r = (if total_flop N1 N2 M = 0 then NaN else PosInf))
               \<and> (sint dur < 0 \<longrightarrow> le_zero (col_gflops r))))"
proof -
  have b': "unat M * unat N2 < 2 ^ 64" using assms(2) by (simp add: mult.commute)
  obtain a1 b1 where ip: "ip_operands e N1 N2 M = Some (a1, b1)"
      "run_ip e b N1 N2 M = Some (b\<lparr>pt := pt b @ [ip_row e (debug b) N1 N2 M a1 b1]\<rparr>)"
    using run_ip_ok[OF assms] by blast
  obtain a2 b2 where gm: "gemm_operands e N1 N2 M = Some (a2, b2)"
      "run_gemm e b N1 N2 M = Some (b\<lparr>pt := pt b @ [gemm_row e (debug b) N1 N2 M a2 b2]\<rparr>)"
    using run_gemm_ok[OF assms(1) b'] by blast
  have 1: "\<exists>mat_a mat_b r. ip_operands e N1 N2 M = Some (mat_a, mat_b)
          \<and> run_ip e b N1 N2 M = Some (b\<lparr>pt := pt b @ [r]\<rparr>)
          \<and> (let dur = amx_inner_product e
                   \<lparr>arg_N1 = N1, arg_N2 = N2, arg_M = M, arg_mat_a = mat_a,
                    arg_mat_b = mat_b, arg_debug = debug b\<rparr>
              in col_duration r = of_i64 dur
               \<and> col_gflops r = fdiv (of_u64 (total_flop N1 N2 M)) (of_i64 dur)
               \<and> (dur = 0 \<longrightarrow> col_gflops r = (if total_flop N1 N2 M = 0 then NaN else PosInf))
               \<and> (sint dur < 0 \<longrightarrow> le_zero (col_gflops r)))"
    by (rule exI[of _ a1], rule exI[of _ b1], rule exI[of _ "ip_row e (debug b) N1 N2 M a1 b1"])
       (simp add: ip Let_def fdiv_zero_duration fdiv_negative_duration)
  have 2: "\<exists>mat_a mat_b r. gemm_operands e N1 N2 M = Some (mat_a, mat_b)
          \<and> run_gemm e b N1 N2 M = Some (b\<lparr>pt := pt b @ [r]\<rparr>)
          \<and> (let dur = amx_matmul e
                   \<lparr>arg_N1 = N1, arg_N2 = N2, arg_M = M, arg_mat_a = mat_a,
                    arg_mat_b = mat_b, arg_debug = debug b\<rparr>
              in col_duration r = of_i64 dur
               \<and> col_gflops r = fdiv (of_u64 (total_flop N1 N2 M)) (of_i64 dur)
               \<and> (dur = 0 \<longrightarrow> col_gflops r = (if total_flop N1 N2 M = 0 then NaN else PosInf))
               \<and> (sint dur < 0 \<longrightarrow> le_zero (col_gflops r)))"
    by (rule exI[of _ a2], rule exI[of _ b2], rule exI[of _ "gemm_row e (debug b) N1 N2 M a2 b2"])
       (simp add: gm Let_def fdiv_zero_duration fdiv_negative_duration)
  show ?thesis using 1 2 by blast
qed

text \<open>
  The configuration (2, 3, 4) with a kernel that reports 0 ns in the one mode and
  -5 ns in the other.
\<close>

theorem degenerate_duration_unchecked_witness:
  "unat (2::u64) * unat (4::u64) < 2 ^ 64 \<and> unat (3::u64) * unat (4::u64) < 2 ^ 64
   \<and> (\<exists>r. run_ip (example_env 0) (Benchmark False) 2 3 4
              = Some (Benchmark False\<lparr>pt := pt (Benchmark False) @ [r]\<rparr>)
          \<and> col_duration r = Fin 0 \<and> col_gflops r = PosInf)
   \<and> (\<exists>r. run_gemm (example_env (- 5)) (Benchmark False) 2 3 4
              = Some (Benchmark False\<lparr>pt := pt (Benchmark False) @ [r]\<rparr>)
          \<and> le_zero (col_gflops r))"
proof -
  have tf: "total_flop 2 3 4 = 42" by (simp add: total_flop_def)
  have 1: "\<exists>r. run_ip (example_env 0) (Benchmark False) 2 3 4
              = Some (Benchmark False\<lparr>pt := pt (Benchmark False) @ [r]\<rparr>)
          \<and> col_duration r = Fin 0 \<and> col_gflops r = PosInf"
    using degenerate_duration_unchecked[of 2 4 3 "example_env 0" "Benchmark False"]
    by (auto simp: example_env_def Let_def tf)
  have 2: "\<exists>r. run_gemm (example_env (- 5)) (Benchmark False) 2 3 4
              = Some (Benchmark False\<lparr>pt := pt (Benchmark False) @ [r]\<rparr>)
          \<and> le_zero (col_gflops r)"
    using degenerate_duration_unchecked[of 2 4 3 "example_env (- 5)" "Benchmark False"]
    by (auto simp: example_env_def Let_def tf)
  show ?thesis using 1 2 by simp
qed

text \<open>
  C6 as stated fails: when the kernel reports 0 ns for (2, 3, 4), \<open>run_ip\<close> appends an
  ordinary row whose GFLOPS cell is plus infinity.
\<close>

theorem zero_duration_counterexample:
  "map_option (map col_duration \<circ> pt) (run_ip (example_env 0) (Benchmark False) 2 3 4)
     = Some [Fin 0]
   \<and> map_option (map col_gflops \<circ> pt) (run_ip (example_env 0) (Benchmark False) 2 3 4)
     = Some [PosInf]"
proof -
  have tf: "total_flop 2 3 4 = 42" by (simp add: total_flop_def)
  obtain a b where "run_ip (example_env 0) (Benchmark False) 2 3 4
      = Some (Benchmark False\<lparr>pt := pt (Benchmark False) @ [ip_row (example_env 0) (debug (Benchmark False)) 2 3 4 a b]\<rparr>)"
    using run_ip_ok[of 2 4 3 "example_env 0" "Benchmark False"] by auto
  then show ?thesis
    by (simp add: tf Benchmark_def example_env_def fdiv_zero_duration)
qed

section \<open>Loops over the configurations\<close>

lemma for_each_single:
  assumes "\<And>x b. x \<in> set xs \<Longrightarrow> debug b = dbg \<Longrightarrow>
             \<exists>r. f x b = Some (b\<lparr>pt := pt b @ [r]\<rparr>) \<and> P x r"
    and "debug b = dbg"
  shows "\<exists>rs. for_each xs f b = Some (b\<lparr>pt := pt b @ rs\<rparr>) \<and> list_all2 P xs rs"
  using assms
proof (induction xs arbitrary: b)
  case Nil
  show ?case by simp
next
  case (Cons x xs)
  obtain r where r: "f x b = Some (b\<lparr>pt := pt b @ [r]\<rparr>)" "P x r"
    using Cons.prems(1)[of x b] Cons.prems(2) by auto
  let ?b = "b\<lparr>pt := pt b @ [r]\<rparr>"
  have "debug ?b = dbg" using Cons.prems(2) by simp
  then obtain rs where rs: "for_each xs f ?b = Some (?b\<lparr>pt := pt ?b @ rs\<rparr>)" "list_all2 P xs rs"
    using Cons.IH[of ?b] Cons.prems(1) by auto
  have "for_each (x # xs) f b = Some (b\<lparr>pt := pt b @ (r # rs)\<rparr>)" using r(1) rs(1) by simp
  moreover have "list_all2 P (x # xs) (r # rs)" using r(2) rs(2) by simp
  ultimately show ?case by blast
qed

lemma for_each_multi:
  assumes "\<And>x b. x \<in> set xs \<Longrightarrow> debug b = dbg \<Longrightarrow>
             \<exists>rs. f x b = Some (b\<lparr>pt := pt b @ rs\<rparr>) \<and> Q x rs"
    and "debug b = dbg"
  shows "\<exists>rss. for_each xs f b = Some (b\<lparr>pt := pt b @ concat rss\<rparr>) \<and> list_all2 Q xs rss"
  using assms
proof (induction xs arbitrary: b)
  case Nil
  show ?case by simp
next
  case (Cons x xs)
  obtain r where r: "f x b = Some (b\<lparr>pt := pt b @ r\<rparr>)" "Q x r"
    using Cons.prems(1)[of x b] Cons.prems(2) by auto
  let ?b = "b\<lparr>pt := pt b @ r\<rparr>"
  have "debug ?b = dbg" using Cons.prems(2) by simp
  then obtain rs where rs: "for_each xs f ?b = Some (?b\<lparr>pt := pt ?b @ concat rs\<rparr>)" "list_all2 Q xs rs"
    using Cons.IH[of ?b] Cons.prems(1) by auto
  have "for_each (x # xs) f b = Some (b\<lparr>pt := pt b @ concat (r # rs)\<rparr>)" using r(1) rs(1) by simp
  moreover have "list_all2 Q (x # xs) (r # rs)" using r(2) rs(2) by simp
  ultimately show ?case by blast
qed

lemma list_all2_product:
  assumes "list_all2 (\<lambda>x rs. list_all2 (P x) ys rs) xs rss"
  shows "list_all2 (\<lambda>c r. P (fst c) (snd c) r) (List.product xs ys) (concat rss)"
  using assms
proof (induction xs rss rule: list_all2_induct)
  case Nil
  show ?case by simp
next
  case (Cons x xs rs rss)
  have "list_all2 (\<lambda>c r. P (fst c) (snd c) r) (map (Pair x) ys) rs"
    using Cons.hyps(1) by (simp add: list_all2_map1)
  then show ?case using Cons.IH by (simp add: list_all2_appendI)
qed

lemma list_all2_map_eq:
  assumes "list_all2 P xs rs" and "\<And>x r. P x r \<Longrightarrow> f r = g x"
  shows "map f rs = map g xs"
  using assms by (induction xs rs rule: list_all2_induct) auto

lemma sq_sweep_rows:
  "\<exists>t1 t2. run_bench_sq_matrix e garbage cout = Some (cout @ [t1, t2])
     \<and> list_all2 (\<lambda>s. ip_row_of e garbage s s s)
          [64, 128, 256, 512, 1024, 2048, 4096, 8192, 16384, 32768] t1
     \<and> list_all2 (\<lambda>s. gemm_row_of e garbage s s s)
          [64, 128, 256, 512, 1024, 2048, 4096, 8192, 16384, 32768] t2"
proof -
  let ?sizes = "[64, 128, 256, 512, 1024, 2048, 4096, 8192, 16384, 32768] :: u64 list"
  let ?dbg = "garbage"
  let ?b0 = "Benchmark ?dbg"
  have nw: "unat s * unat s < 2 ^ 64" if "s \<in> set ?sizes" for s
    using that by auto
  have d0: "debug ?b0 = ?dbg" by (simp add: Benchmark_def)
  have "\<exists>rs. for_each ?sizes (\<lambda>size b. run_ip e b size size size) ?b0 = Some (?b0\<lparr>pt := pt ?b0 @ rs\<rparr>)
      \<and> list_all2 (\<lambda>s. ip_row_of e ?dbg s s s) ?sizes rs"
  proof (rule for_each_single[where dbg = ?dbg, OF _ d0])
    fix x and b :: benchmark assume x: "x \<in> set ?sizes" and b: "debug b = ?dbg"
    from run_ip_ok[OF nw[OF x] nw[OF x], of e b]
    show "\<exists>r. run_ip e b x x x = Some (b\<lparr>pt := pt b @ [r]\<rparr>) \<and> ip_row_of e ?dbg x x x r"
      using b by (auto simp: ip_row_of_def gemm_row_of_def)
  qed
  then obtain t1 where t1: "for_each ?sizes (\<lambda>size b. run_ip e b size size size) ?b0 = Some (?b0\<lparr>pt := pt ?b0 @ t1\<rparr>)"
      "list_all2 (\<lambda>s. ip_row_of e ?dbg s s s) ?sizes t1" by blast
  let ?b2 = "?b0\<lparr>pt := []\<rparr>"
  have d2: "debug ?b2 = ?dbg" by (simp add: Benchmark_def)
  have "\<exists>rs. for_each ?sizes (\<lambda>size b. run_gemm e b size size size) ?b2 = Some (?b2\<lparr>pt := pt ?b2 @ rs\<rparr>)
      \<and> list_all2 (\<lambda>s. gemm_row_of e ?dbg s s s) ?sizes rs"
  proof (rule for_each_single[where dbg = ?dbg, OF _ d2])
    fix x and b :: benchmark assume x: "x \<in> set ?sizes" and b: "debug b = ?dbg"
    from run_gemm_ok[OF nw[OF x] nw[OF x], of e b]
    show "\<exists>r. run_gemm e b x x x = Some (b\<lparr>pt := pt b @ [r]\<rparr>) \<and> gemm_row_of e ?dbg x x x r"
      using b by (auto simp: ip_row_of_def gemm_row_of_def)
  qed
  then obtain t2 where t2: "for_each ?sizes (\<lambda>size b. run_gemm e b size size size) ?b2 = Some (?b2\<lparr>pt := pt ?b2 @ t2\<rparr>)"
      "list_all2 (\<lambda>s. gemm_row_of e ?dbg s s s) ?sizes t2" by blast
  have "run_bench_sq_matrix e garbage cout = Some (cout @ [t1, t2])"
    using t1(1) t2(1) by (simp add: run_bench_sq_matrix_def print_results_def Benchmark_def)
  then show ?thesis using t1(2) t2(2) by blast
qed

lemma rect_sweep_rows:
  "\<exists>t. run_bench_rect_matrix e garbage cout = Some (cout @ [t])
     \<and> list_all2 (\<lambda>c. ip_row_of e garbage (fst c) (snd c) 1024)
          (List.product [32, 64, 128, 256, 512, 1024, 2048, 4096, 8192, 16384, 32768]
                        [1048576, 2097152, 4194304, 8388608]) t"
proof -
  let ?n1s = "[32, 64, 128, 256, 512, 1024, 2048, 4096, 8192, 16384, 32768] :: u64 list"
  let ?mults = "[1, 2, 4, 8] :: u64 list"
  let ?n2s = "[1048576, 2097152, 4194304, 8388608] :: u64 list"
  let ?dbg = "garbage"
  let ?P = "\<lambda>n1 n2. ip_row_of e ?dbg n1 n2 1024"
  let ?b0 = "Benchmark ?dbg"
  let ?inner = "\<lambda>n1. for_each ?mults (\<lambda>n2_multiplier b. run_ip e b n1 (1024 * 1024 * n2_multiplier) 1024)"
  have n2s: "map (\<lambda>k. 1024 * 1024 * k) ?mults = ?n2s" by simp
  have d0: "debug ?b0 = ?dbg" by (simp add: Benchmark_def)
  have "\<exists>rss. for_each ?n1s ?inner ?b0 = Some (?b0\<lparr>pt := pt ?b0 @ concat rss\<rparr>)
      \<and> list_all2 (\<lambda>n1 rs. list_all2 (?P n1) ?n2s rs) ?n1s rss"
  proof (rule for_each_multi[where dbg = ?dbg, OF _ d0])
    fix n1 and b :: benchmark assume n1: "n1 \<in> set ?n1s" and b: "debug b = ?dbg"
    have a: "unat n1 * unat (1024 :: u64) < 2 ^ 64" using n1 by auto
    have "\<exists>rs. ?inner n1 b = Some (b\<lparr>pt := pt b @ rs\<rparr>)
        \<and> list_all2 (\<lambda>k r. ?P n1 (1024 * 1024 * k) r) ?mults rs"
    proof (rule for_each_single[where dbg = ?dbg, OF _ b])
      fix k and b' :: benchmark assume k: "k \<in> set ?mults" and b': "debug b' = ?dbg"
      have c: "unat (1024 * 1024 * k) * unat (1024 :: u64) < 2 ^ 64" using k by auto
      from run_ip_ok[OF a c, of e b']
      show "\<exists>r. run_ip e b' n1 (1024 * 1024 * k) 1024 = Some (b'\<lparr>pt := pt b' @ [r]\<rparr>)
              \<and> ip_row_of e ?dbg n1 (1024 * 1024 * k) 1024 r"
        using b' by (auto simp: ip_row_of_def)
    qed
    then obtain rs where rs: "?inner n1 b = Some (b\<lparr>pt := pt b @ rs\<rparr>)"
        "list_all2 (\<lambda>k r. ?P n1 (1024 * 1024 * k) r) ?mults rs" by blast
    from rs(2) have "list_all2 (?P n1) (map (\<lambda>k. 1024 * 1024 * k) ?mults) rs"
      by (simp only: list_all2_map1)
    then have "list_all2 (?P n1) ?n2s rs" by (simp only: n2s)
    then show "\<exists>rs. ?inner n1 b = Some (b\<lparr>pt := pt b @ rs\<rparr>) \<and> list_all2 (?P n1) ?n2s rs"
      using rs(1) by blast
  qed
  then obtain rss where rss: "for_each ?n1s ?inner ?b0 = Some (?b0\<lparr>pt := pt ?b0 @ concat rss\<rparr>)"
      "list_all2 (\<lambda>n1 rs. list_all2 (?P n1) ?n2s rs) ?n1s rss" by blast
  have "run_bench_rect_matrix e garbage cout = Some (cout @ [concat rss])"
    using rss(1) by (simp add: run_bench_rect_matrix_def print_results_def Benchmark_def Let_def)
  moreover have "list_all2 (\<lambda>c r. ?P (fst c) (snd c) r) (List.product ?n1s ?n2s) (concat rss)"
    by (rule list_all2_product[OF rss(2)])
  ultimately show ?thesis by blast
qed

section \<open>The sweeps\<close>

text \<open>
  C3.  The square sweep prints exactly two tables.  The first holds the ten rows that
  \<open>run_ip\<close> produces for \<open>N1 = N2 = M = 64, 128, \<dots>, 32768\<close>, in that order; it is printed
  and the table reset before the second is filled with the ten rows of \<open>run_gemm\<close> for the
  same sizes in the same order.  The Mode and N1/N2/M columns are written out.  This
  holds whatever value \<open>garbage\<close> the unassigned member \<open>debug\<close> holds; that value is
  the flag with which the rows are computed.
\<close>

theorem square_sweep:
  "\<exists>t1 t2. run_bench_sq_matrix e garbage cout = Some (cout @ [t1, t2])
     \<and> length t1 = 10 \<and> length t2 = 10
     \<and> list_all2 (\<lambda>s. ip_row_of e garbage s s s)
          [64, 128, 256, 512, 1024, 2048, 4096, 8192, 16384, 32768] t1
     \<and> list_all2 (\<lambda>s. gemm_row_of e garbage s s s)
          [64, 128, 256, 512, 1024, 2048, 4096, 8192, 16384, 32768] t2
     \<and> map col_mode t1 = replicate 10 ''IP / AMX''
     \<and> map col_mode t2 = replicate 10 ''GEMM / AMX''
     \<and> map col_dims t1 =
          [''64/64/64'', ''128/128/128'', ''256/256/256'', ''512/512/512'',
           ''1024/1024/1024'', ''2048/2048/2048'', ''4096/4096/4096'', ''8192/8192/8192'',
           ''16384/16384/16384'', ''32768/32768/32768'']
     \<and> map col_dims t2 =
          [''64/64/64'', ''128/128/128'', ''256/256/256'', ''512/512/512'',
           ''1024/1024/1024'', ''2048/2048/2048'', ''4096/4096/4096'', ''8192/8192/8192'',
           ''16384/16384/16384'', ''32768/32768/32768'']"
proof -
  let ?sizes = "[64, 128, 256, 512, 1024, 2048, 4096, 8192, 16384, 32768] :: u64 list"
  obtain t1 t2 where run: "run_bench_sq_matrix e garbage cout = Some (cout @ [t1, t2])"
    and r1: "list_all2 (\<lambda>s. ip_row_of e garbage s s s) ?sizes t1"
    and r2: "list_all2 (\<lambda>s. gemm_row_of e garbage s s s) ?sizes t2"
    using sq_sweep_rows[of e garbage cout] by blast
  have l1: "length t1 = 10" using list_all2_lengthD[OF r1] by simp
  have l2: "length t2 = 10" using list_all2_lengthD[OF r2] by simp
  have m1: "map col_mode t1 = map (\<lambda>s. ''IP / AMX'') ?sizes"
    by (rule list_all2_map_eq[OF r1]) (auto simp: ip_row_of_def)
  have m2: "map col_mode t2 = map (\<lambda>s. ''GEMM / AMX'') ?sizes"
    by (rule list_all2_map_eq[OF r2]) (auto simp: gemm_row_of_def)
  have d1: "map col_dims t1 = map (\<lambda>s. dims_string s s s) ?sizes"
    by (rule list_all2_map_eq[OF r1]) (auto simp: ip_row_of_def)
  have d2: "map col_dims t2 = map (\<lambda>s. dims_string s s s) ?sizes"
    by (rule list_all2_map_eq[OF r2]) (auto simp: gemm_row_of_def)
  have ev: "map (\<lambda>s. dims_string s s s) ?sizes =
          [''64/64/64'', ''128/128/128'', ''256/256/256'', ''512/512/512'',
           ''1024/1024/1024'', ''2048/2048/2048'', ''4096/4096/4096'', ''8192/8192/8192'',
           ''16384/16384/16384'', ''32768/32768/32768'']"
    by (simp add: dims_string_def to_string.simps digit_def)
  have rp: "map (\<lambda>s. ''IP / AMX'') ?sizes = replicate 10 ''IP / AMX''"
     "map (\<lambda>s. ''GEMM / AMX'') ?sizes = replicate 10 ''GEMM / AMX''"
    by (simp_all add: numeral_eq_Suc)
  show ?thesis
    apply (rule exI[of _ t1], rule exI[of _ t2])
    using run l1 l2 r1 r2 m1 m2 d1 d2 unfolding ev rp by simp
qed

text \<open>
  C4.  The rectangular sweep prints one table of exactly \<open>11 * 4 = 44\<close> inner-product
  rows.  Row by row they are the configurations \<open>(N1, N2, 1024)\<close> with \<open>N1\<close> running
  through \<open>32, 64, \<dots>, 32768\<close> in the outer loop and \<open>N2\<close> through \<open>1048576\<close>, \<open>2097152\<close>,
  \<open>4194304\<close>, \<open>8388608\<close> in the inner one (\<open>List.product\<close> lists the pairs in this order),
  again whatever value \<open>garbage\<close> the member \<open>debug\<close> holds.
\<close>

theorem rectangular_sweep:
  "\<exists>t. run_bench_rect_matrix e garbage cout = Some (cout @ [t])
     \<and> length t = 44
     \<and> list_all2 (\<lambda>c. ip_row_of e garbage (fst c) (snd c) 1024)
          (List.product [32, 64, 128, 256, 512, 1024, 2048, 4096, 8192, 16384, 32768]
                        [1048576, 2097152, 4194304, 8388608]) t
     \<and> map col_mode t = replicate 44 ''IP / AMX''
     \<and> map col_dims t =
          [''32/1048576/1024'', ''32/2097152/1024'', ''32/4194304/1024'', ''32/8388608/1024'',
           ''64/1048576/1024'', ''64/2097152/1024'', ''64/4194304/1024'', ''64/8388608/1024'',
           ''128/1048576/1024'', ''128/2097152/1024'', ''128/4194304/1024'', ''128/8388608/1024'',
           ''256/1048576/1024'', ''256/2097152/1024'', ''256/4194304/1024'', ''256/8388608/1024'',
           ''512/1048576/1024'', ''512/2097152/1024'', ''512/4194304/1024'', ''512/8388608/1024'',
           ''1024/1048576/1024'', ''1024/2097152/1024'', ''1024/4194304/1024'', ''1024/8388608/1024'',
           ''2048/1048576/1024'', ''2048/2097152/1024'', ''2048/4194304/1024'', ''2048/8388608/1024'',
           ''4096/1048576/1024'', ''4096/2097152/1024'', ''4096/4194304/1024'', ''4096/8388608/1024'',
           ''8192/1048576/1024'', ''8192/2097152/1024'', ''8192/4194304/1024'', ''8192/8388608/1024'',
           ''16384/1048576/1024'', ''16384/2097152/1024'', ''16384/4194304/1024'', ''16384/8388608/1024'',
           ''32768/1048576/1024'', ''32768/2097152/1024'', ''32768/4194304/1024'', ''32768/8388608/1024'']"
proof -
  let ?cfg = "List.product ([32, 64, 128, 256, 512, 1024, 2048, 4096, 8192, 16384, 32768] :: u64 list)
                        ([1048576, 2097152, 4194304, 8388608] :: u64 list)"
  obtain t where run: "run_bench_rect_matrix e garbage cout = Some (cout @ [t])"
    and r: "list_all2 (\<lambda>c. ip_row_of e garbage (fst c) (snd c) 1024) ?cfg t"
    using rect_sweep_rows[of e garbage cout] by blast
  have l: "length t = 44" using list_all2_lengthD[OF r] by simp
  have m: "map col_mode t = map (\<lambda>c. ''IP / AMX'') ?cfg"
    by (rule list_all2_map_eq[OF r]) (auto simp: ip_row_of_def)
  have d: "map col_dims t = map (\<lambda>c. dims_string (fst c) (snd c) 1024) ?cfg"
    by (rule list_all2_map_eq[OF r]) (auto simp: ip_row_of_def)
  have ev: "map (\<lambda>c. dims_string (fst c) (snd c) 1024) ?cfg =
          [''32/1048576/1024'', ''32/2097152/1024'', ''32/4194304/1024'', ''32/8388608/1024'',
           ''64/1048576/1024'', ''64/2097152/1024'', ''64/4194304/1024'', ''64/8388608/1024'',
           ''128/1048576/1024'', ''128/2097152/1024'', ''128/4194304/1024'', ''128/8388608/1024'',
           ''256/1048576/1024'', ''256/2097152/1024'', ''256/4194304/1024'', ''256/8388608/1024'',
           ''512/1048576/1024'', ''512/2097152/1024'', ''512/4194304/1024'', ''512/8388608/1024'',
           ''1024/1048576/1024'', ''1024/2097152/1024'', ''1024/4194304/1024'', ''1024/8388608/1024'',
           ''2048/1048576/1024'', ''2048/2097152/1024'', ''2048/4194304/1024'', ''2048/8388608/1024'',
           ''4096/1048576/1024'', ''4096/2097152/1024'', ''4096/4194304/1024'', ''4096/8388608/1024'',
           ''8192/1048576/1024'', ''8192/2097152/1024'', ''8192/4194304/1024'', ''8192/8388608/1024'',
           ''16384/1048576/1024'', ''16384/2097152/1024'', ''16384/4194304/1024'', ''16384/8388608/1024'',
           ''32768/1048576/1024'', ''32768/2097152/1024'', ''32768/4194304/1024'', ''32768/8388608/1024'']"
    by (simp add: dims_string_def to_string.simps digit_def)
  have rp: "map (\<lambda>c. ''IP / AMX'') ?cfg = replicate 44 ''IP / AMX''"
    by (simp add: numeral_eq_Suc)
  show ?thesis
    apply (rule exI[of _ t])
    using run l r m d unfolding ev rp by simp
qed

section \<open>The debug option\<close>

text \<open>
  C7.  The value that the command line gives to \<open>--debug\<close> does not reach the kernels.
  Whatever the parser stores in the local \<open>debug\<close> of \<open>main\<close> (the value \<open>d\<close>), the
  program prints three tables, and each row is the one the driver produces with the
  kernel's debug flag read from the member \<open>Benchmark::debug\<close> of the sweep's own object,
  which nothing assigns.  The flag is the indeterminate value \<open>uninit_debug e argv _\<close>
  of that run; \<open>d\<close> does not occur in the result.  What the member holds may differ from
  one command line to the next and from one sweep to the other, and it may or may not
  coincide with \<open>d\<close>.
\<close>

theorem debug_option_ignored:
  assumes "cli_parse e argv = Inr d"
  shows "\<exists>t1 t2 t3. main e argv = Some (0, [t1, t2, t3])
          \<and> list_all2 (\<lambda>s. ip_row_of e (uninit_debug e argv Square) s s s)
               [64, 128, 256, 512, 1024, 2048, 4096, 8192, 16384, 32768] t1
          \<and> list_all2 (\<lambda>s. gemm_row_of e (uninit_debug e argv Square) s s s)
               [64, 128, 256, 512, 1024, 2048, 4096, 8192, 16384, 32768] t2
          \<and> list_all2 (\<lambda>c. ip_row_of e (uninit_debug e argv Rectangular) (fst c) (snd c) 1024)
               (List.product [32, 64, 128, 256, 512, 1024, 2048, 4096, 8192, 16384, 32768]
                             [1048576, 2097152, 4194304, 8388608]) t3"
proof -
  obtain t1 t2 where sq: "run_bench_sq_matrix e (uninit_debug e argv Square) [] = Some ([] @ [t1, t2])"
    and r1: "list_all2 (\<lambda>s. ip_row_of e (uninit_debug e argv Square) s s s)
               [64, 128, 256, 512, 1024, 2048, 4096, 8192, 16384, 32768] t1"
    and r2: "list_all2 (\<lambda>s. gemm_row_of e (uninit_debug e argv Square) s s s)
               [64, 128, 256, 512, 1024, 2048, 4096, 8192, 16384, 32768] t2"
    using sq_sweep_rows[of e "uninit_debug e argv Square" "[]"] by blast
  obtain t3 where rect: "run_bench_rect_matrix e (uninit_debug e argv Rectangular) [t1, t2]
                           = Some ([t1, t2] @ [t3])"
    and r3: "list_all2 (\<lambda>c. ip_row_of e (uninit_debug e argv Rectangular) (fst c) (snd c) 1024)
               (List.product [32, 64, 128, 256, 512, 1024, 2048, 4096, 8192, 16384, 32768]
                             [1048576, 2097152, 4194304, 8388608]) t3"
    using rect_sweep_rows[of e "uninit_debug e argv Rectangular" "[t1, t2]"] by blast
  have m: "main e argv = Some (0, [t1, t2, t3])"
    using assms(1) sq rect by (simp add: main_def)
  show ?thesis
    by (rule exI[of _ t1], rule exI[of _ t2], rule exI[of _ t3]) (simp only: m r1 r2 r3 simp_thms)
qed

text \<open>
  A run of \<open>--debug true\<close> in which the member happens to read as false: the option is
  parsed as true, and every row is computed with the flag false.
\<close>

theorem debug_option_ignored_witness:
  "cli_parse (example_env 1000) [''--debug'', ''true''] = Inr True
   \<and> (\<exists>t1 t2 t3. main (example_env 1000) [''--debug'', ''true''] = Some (0, [t1, t2, t3])
          \<and> list_all2 (\<lambda>s. ip_row_of (example_env 1000) False s s s)
               [64, 128, 256, 512, 1024, 2048, 4096, 8192, 16384, 32768] t1
          \<and> list_all2 (\<lambda>s. gemm_row_of (example_env 1000) False s s s)
               [64, 128, 256, 512, 1024, 2048, 4096, 8192, 16384, 32768] t2
          \<and> list_all2 (\<lambda>c. ip_row_of (example_env 1000) False (fst c) (snd c) 1024)
               (List.product [32, 64, 128, 256, 512, 1024, 2048, 4096, 8192, 16384, 32768]
                             [1048576, 2097152, 4194304, 8388608]) t3)"
proof -
  have p: "cli_parse (example_env 1000) [''--debug'', ''true''] = Inr True"
    by (simp add: example_env_def example_cli_def)
  have u: "uninit_debug (example_env 1000) argv s = False" for argv s
    by (simp add: example_env_def)
  show ?thesis
    using debug_option_ignored[OF p] unfolding u by (simp only: p simp_thms)
qed

section \<open>Matrix generation\<close>

text \<open>
  Two draws that overlap.  In \<open>run_ip(2, 1, 1)\<close> with two threads, the thread of row 0
  reads the fresh engine at the same moment as the thread of row 1, and only one step of
  the engine takes effect: both rows of the left operand hold the first variate, and the
  right operand the second.
\<close>

lemma overlapping_draws_example:
  "ip_operands
     (e\<lparr>omp_schedule := \<lambda>l rows cols. if l = IP_left then [(0, Raced (After 0) (After 0))] else []\<rparr>)
     2 1 1
     = Some ([Variate \<lparr>kind = MT19937_64, seed = 47, state = After 0\<rparr>,
              Variate \<lparr>kind = MT19937_64, seed = 47, state = After 0\<rparr>],
             [Variate \<lparr>kind = MT19937_64, seed = 47, state = After 1\<rparr>])"
proof -
  have up: "[0..<2] = [0, 1]" "[0..<1] = [0]" by (simp_all add: upt_rec)
  have rp: "replicate 2 Init = [Init, Init]" by (simp add: numeral_2_eq_2)
  show ?thesis
    by (simp add: ip_operands_def fill_def omp_parallel_for_def Let_def up rp)
qed

text \<open>
  C8.  With the same dimensions and the same seed 47, the left operand of \<open>run_ip\<close> and
  of \<open>run_gemm\<close> depends on the order in which the threads of the parallel loop reach the
  shared engine.  For two rows of one element, the sequential order stores the first
  variate in row 0 and the second in row 1; if the thread of row 1 draws first, the two
  are exchanged.  No draw overlaps with another in either run.
\<close>

theorem generation_depends_on_schedule:
  "ip_operands (e\<lparr>omp_schedule := \<lambda>l rows cols. []\<rparr>) 2 1 1
     = Some ([Variate \<lparr>kind = MT19937_64, seed = 47, state = After 0\<rparr>,
              Variate \<lparr>kind = MT19937_64, seed = 47, state = After 1\<rparr>],
             [Variate \<lparr>kind = MT19937_64, seed = 47, state = After 2\<rparr>])
   \<and> ip_operands (e\<lparr>omp_schedule := \<lambda>l rows cols. [(1, Clean)]\<rparr>) 2 1 1
     = Some ([Variate \<lparr>kind = MT19937_64, seed = 47, state = After 1\<rparr>,
              Variate \<lparr>kind = MT19937_64, seed = 47, state = After 0\<rparr>],
             [Variate \<lparr>kind = MT19937_64, seed = 47, state = After 2\<rparr>])
   \<and> gemm_operands (e\<lparr>omp_schedule := \<lambda>l rows cols. []\<rparr>) 2 1 1
     = Some ([Variate \<lparr>kind = MT19937, seed = 47, state = After 0\<rparr>,
              Variate \<lparr>kind = MT19937, seed = 47, state = After 1\<rparr>],
             [Variate \<lparr>kind = MT19937, seed = 47, state = After 2\<rparr>])
   \<and> gemm_operands (e\<lparr>omp_schedule := \<lambda>l rows cols. [(1, Clean)]\<rparr>) 2 1 1
     = Some ([Variate \<lparr>kind = MT19937, seed = 47, state = After 1\<rparr>,
              Variate \<lparr>kind = MT19937, seed = 47, state = After 0\<rparr>],
             [Variate \<lparr>kind = MT19937, seed = 47, state = After 2\<rparr>])"
proof -
  have up: "[0..<2] = [0, 1]" "[0..<1] = [0]" by (simp_all add: upt_rec)
  have rp: "replicate 2 Init = [Init, Init]" by (simp add: numeral_2_eq_2)
  show ?thesis
    by (simp add: ip_operands_def gemm_operands_def fill_def omp_parallel_for_def Let_def up rp)
qed

text \<open>
  C9 (as amended).  Within one call of \<open>run_ip\<close> (or of \<open>run_gemm\<close>) both operands are
  drawn from one engine, seeded once with 47.  The left fill starts from the freshly
  seeded engine and leaves it in some state \<open>g\<close>, still the same engine with the same
  seed; the right fill starts from \<open>g\<close>, with no second engine and no reseeding in
  between.  Every element of both operands is a variate of that engine.  The two engines
  differ between the two functions (\<open>mt19937_64\<close> in \<open>run_ip\<close>, \<open>mt19937\<close> in \<open>run_gemm\<close>),
  not between the two operands.  Which variate of the engine an element holds depends on
  the order and the overlap of the draws, and nothing is said about it here.
\<close>

theorem operands_share_one_engine:
  assumes "unat N1 * unat M < 2 ^ 64" and "unat N2 * unat M < 2 ^ 64"
  shows "(\<exists>mat_a g mat_b g'.
       fill (omp_schedule e IP_left N1 M) N1 M
         (replicate (unat (N1 * M)) Init, \<lparr>kind = MT19937_64, seed = 47, state = After 0\<rparr>)
         = Some (mat_a, g)
     \<and> fill (omp_schedule e IP_right N2 M) N2 M (replicate (unat (N2 * M)) Init, g)
         = Some (mat_b, g')
     \<and> ip_operands e N1 N2 M = Some (mat_a, mat_b)
     \<and> kind g = MT19937_64 \<and> seed g = 47
     \<and> length mat_a = unat N1 * unat M \<and> length mat_b = unat N2 * unat M
     \<and> list_all (drawn_from MT19937_64 47) mat_a
     \<and> list_all (drawn_from MT19937_64 47) mat_b)
   \<and> (\<exists>mat_a g mat_b g'.
       fill (omp_schedule e GEMM_left N1 M) N1 M
         (replicate (unat (N1 * M)) Init, \<lparr>kind = MT19937, seed = 47, state = After 0\<rparr>)
         = Some (mat_a, g)
     \<and> fill (omp_schedule e GEMM_right M N2) M N2 (replicate (unat (M * N2)) Init, g)
         = Some (mat_b, g')
     \<and> gemm_operands e N1 N2 M = Some (mat_a, mat_b)
     \<and> kind g = MT19937 \<and> seed g = 47
     \<and> length mat_a = unat N1 * unat M \<and> length mat_b = unat M * unat N2
     \<and> list_all (drawn_from MT19937 47) mat_a
     \<and> list_all (drawn_from MT19937 47) mat_b)"
proof -
  have b': "unat M * unat N2 < 2 ^ 64" using assms(2) by (simp add: mult.commute)
  show ?thesis
    by (rule conjI[OF ip_operands_ok[OF assms, of e] gemm_operands_ok[OF assms(1) b', of e]])
qed

text \<open>The configuration (1, 1, 1), run sequentially.\<close>

theorem operands_share_one_engine_witness:
  "unat (1::u64) * unat (1::u64) < 2 ^ 64
   \<and> (\<exists>mat_a mat_b. ip_operands (example_env 1000) 1 1 1 = Some (mat_a, mat_b)
        \<and> length mat_a = 1 \<and> length mat_b = 1
        \<and> list_all (drawn_from MT19937_64 47) mat_a
        \<and> list_all (drawn_from MT19937_64 47) mat_b)
   \<and> (\<exists>mat_a mat_b. gemm_operands (example_env 1000) 1 1 1 = Some (mat_a, mat_b)
        \<and> length mat_a = 1 \<and> length mat_b = 1
        \<and> list_all (drawn_from MT19937 47) mat_a
        \<and> list_all (drawn_from MT19937 47) mat_b)"
  using operands_share_one_engine[of 1 1 1 "example_env 1000"] by auto

text \<open>
  C9 as stated fails: in \<open>run_ip(1, 1, 1)\<close> the right operand is the second variate of the
  engine whose first variate is the left operand, and likewise in \<open>run_gemm(1, 1, 1)\<close>.
\<close>

theorem same_engine_counterexample:
  "ip_operands (example_env 1000) 1 1 1
     = Some ([Variate \<lparr>kind = MT19937_64, seed = 47, state = After 0\<rparr>],
             [Variate \<lparr>kind = MT19937_64, seed = 47, state = After 1\<rparr>])
   \<and> gemm_operands (example_env 1000) 1 1 1
     = Some ([Variate \<lparr>kind = MT19937, seed = 47, state = After 0\<rparr>],
             [Variate \<lparr>kind = MT19937, seed = 47, state = After 1\<rparr>])"
  by (simp add: ip_operands_def gemm_operands_def fill_def omp_parallel_for_def Let_def
        example_env_def)

end
